theory Spec2Isabelle
  imports Main "HOL-Library.Word" "HOL-Library.Monad_Syntax"
begin

unbundle bit_operations_syntax

section \<open>Machine types and constants\<close>

type_synonym u8 = "8 word"
type_synonym u16 = "16 word"
type_synonym u32 = "32 word"

text \<open>
  Modelled from the spec: the macros \<open>FLASH_SECTOR_SIZE\<close>, \<open>FLASH_PAGE_SIZE\<close> and
  \<open>XIP_BASE\<close> come from the Pico SDK headers (\<open>hardware/flash.h\<close>), which are not part of
  the repository. The spec calls them \<open>physicalSectorSize\<close>, \<open>headerPageSize\<close> and the
  base address; \<open>include/flash_lib.h\<close> fixes the sector size at 4096 bytes, the other two
  carry the values of the RP2040 SDK.
\<close>

definition FLASH_SECTOR_SIZE :: u32 where
  "FLASH_SECTOR_SIZE = 4096"

definition FLASH_PAGE_SIZE :: u32 where
  "FLASH_PAGE_SIZE = 256"

definition XIP_BASE :: u32 where
  "XIP_BASE = 0x10000000"

definition MEMORY_SIGNATURE :: u32 where
  "MEMORY_SIGNATURE = 0x27062021"

definition SIGNATURE_SIZE_BYTES :: u32 where
  "SIGNATURE_SIZE_BYTES = 4"

definition SIGNATURE_POSITION :: u8 where
  "SIGNATURE_POSITION = 0"

definition LOGICAL_ID_POSITION :: u8 where
  "LOGICAL_ID_POSITION = 1"

definition WRITE_COUNT_POSITION :: u8 where
  "WRITE_COUNT_POSITION = 2"

definition PHYSICAL_ID_POSITION :: u8 where
  "PHYSICAL_ID_POSITION = 3"

text \<open>
  \<open>sizeof(SectorHeader)\<close> on the 32-bit ARM target: 4 + 2 + 2 + 1 bytes of fields and
  3 bytes of tail padding (the struct is 4-byte aligned).
\<close>

definition sizeof_SectorHeader :: nat where
  "sizeof_SectorHeader = 12"

definition sizeof_uint16 :: u32 where
  "sizeof_uint16 = 2"

section \<open>The flash device\<close>

text \<open>
  The flash is a byte array indexed by its 32-bit offset. The driver calls made so far
  are recorded in \<open>oplog\<close>, so that "no flash write happened" can be stated.
\<close>

datatype flash_op = Erase u32 u32 | Program u32 u32

record flash =
  mem :: "u32 \<Rightarrow> u8"
  oplog :: "flash_op list"

text \<open>
  Modelled from the spec: the flash driver (\<open>flash_range_erase\<close>, \<open>flash_range_program\<close>
  of the Pico SDK) is an external collaborator. Following the spec, erase sets a span to
  the all-bits-set state and program can only clear bits: the new byte is the old byte
  AND the programmed byte. A byte is in the span \<open>[offs, offs + count)\<close> iff
  \<open>a - offs < count\<close> in 32-bit arithmetic.
\<close>

definition flash_range_erase :: "flash \<Rightarrow> u32 \<Rightarrow> u32 \<Rightarrow> flash" where
  "flash_range_erase fl offs count =
     fl\<lparr>mem := (\<lambda>a. if a - offs < count then 0xFF else mem fl a),
        oplog := oplog fl @ [Erase offs count]\<rparr>"

definition flash_range_program :: "flash \<Rightarrow> u32 \<Rightarrow> u8 list \<Rightarrow> u32 \<Rightarrow> flash" where
  "flash_range_program fl offs data count =
     fl\<lparr>mem := (\<lambda>a. if a - offs < count \<and> unat (a - offs) < length data
                     then mem fl a AND data ! unat (a - offs) else mem fl a),
        oplog := oplog fl @ [Program offs count]\<rparr>"

text \<open>
  Modelled from the spec: the memory-mapped read view. The byte at address
  \<open>XIP_BASE + offset\<close> is the flash byte at \<open>offset\<close>.
\<close>

definition xip_read :: "flash \<Rightarrow> u32 \<Rightarrow> u8" where
  "xip_read fl p = mem fl (p - XIP_BASE)"

text \<open>\<open>memcpy\<close> of \<open>n\<close> bytes out of the mapped view, lowest address first.\<close>

definition memcpy_from :: "flash \<Rightarrow> u32 \<Rightarrow> nat \<Rightarrow> u8 list" where
  "memcpy_from fl p n = map (\<lambda>k. xip_read fl (p + of_nat k)) [0..<n]"

text \<open>Little-endian value of a byte sequence, and the bytes of a value.\<close>

definition le_word :: "u8 list \<Rightarrow> 'a::len word" where
  "le_word bs = foldr (\<lambda>b acc. ucast b OR push_bit 8 acc) bs 0"

definition le_bytes :: "nat \<Rightarrow> 'a::len word \<Rightarrow> u8 list" where
  "le_bytes n w = map (\<lambda>k. ucast (drop_bit (8 * k) w)) [0..<n]"

section \<open>Sector headers\<close>

text \<open>
  The struct \<open>SectorHeader\<close>. Its field \<open>id\<close> is named \<open>id_sub\<close> here; \<open>pad\<close> holds the
  three padding bytes that \<open>memcpy\<close> copies along with the fields.
\<close>

record SectorHeader =
  signature :: u32
  logicalID :: u16
  writeCount :: u16
  id_sub :: u8
  pad :: "u8 list"

definition struct_bytes :: "SectorHeader \<Rightarrow> u8 list" where
  "struct_bytes h =
     le_bytes 4 (signature h) @ le_bytes 2 (logicalID h) @ le_bytes 2 (writeCount h)
       @ [id_sub h] @ take 3 (pad h @ replicate 3 0)"

definition struct_of_bytes :: "u8 list \<Rightarrow> SectorHeader" where
  "struct_of_bytes bs =
     \<lparr>signature = le_word (take 4 bs),
      logicalID = le_word (take 2 (drop 4 bs)),
      writeCount = le_word (take 2 (drop 6 bs)),
      id_sub = le_word (take 1 (drop 8 bs)),
      pad = take 3 (drop 9 bs)\<rparr>"

definition get_memory_addr_from_physical_sector :: "u32 \<Rightarrow> u32" where
  "get_memory_addr_from_physical_sector physical_sector = physical_sector * FLASH_SECTOR_SIZE"

definition get_sector_read_pointer :: "u32 \<Rightarrow> u32" where
  "get_sector_read_pointer physical_sector =
     get_memory_addr_from_physical_sector physical_sector + XIP_BASE"

definition get_header_attribute_from_sector :: "flash \<Rightarrow> u32 \<Rightarrow> u8 \<Rightarrow> u32" where
  "get_header_attribute_from_sector fl physical_sector attribute_id =
     (let read_pointer = get_sector_read_pointer physical_sector in
      if attribute_id = 0 then
        le_word (memcpy_from fl read_pointer (unat SIGNATURE_SIZE_BYTES))
      else if attribute_id = 1 then
        le_word (memcpy_from fl (read_pointer + SIGNATURE_SIZE_BYTES) (unat sizeof_uint16))
      else if attribute_id = 2 then
        le_word (memcpy_from fl (read_pointer + SIGNATURE_SIZE_BYTES + sizeof_uint16)
                   (unat sizeof_uint16))
      else
        le_word (memcpy_from fl (read_pointer + SIGNATURE_SIZE_BYTES + 2 * sizeof_uint16) 1))"

definition check_sector_signature :: "flash \<Rightarrow> u32 \<Rightarrow> bool" where
  "check_sector_signature fl physical_sector \<longleftrightarrow>
     get_header_attribute_from_sector fl physical_sector SIGNATURE_POSITION = MEMORY_SIGNATURE"

text \<open>\<open>memset(buffer, 0xFF, FLASH_PAGE_SIZE); memcpy(buffer, data, data_size)\<close>.\<close>

definition prepare_buffer_to_write :: "u8 list \<Rightarrow> nat \<Rightarrow> u8 list" where
  "prepare_buffer_to_write data data_size =
     take data_size data @ drop data_size (replicate (unat FLASH_PAGE_SIZE) 0xFF)"

definition read_and_update_header :: "flash \<Rightarrow> u32 \<Rightarrow> SectorHeader" where
  "read_and_update_header fl physical_sector_id =
     (let read_pointer = get_sector_read_pointer physical_sector_id;
          sectorHeader = struct_of_bytes (memcpy_from fl read_pointer sizeof_SectorHeader)
      in sectorHeader\<lparr>writeCount := writeCount sectorHeader + 1\<rparr>)"

definition write_sector_by_physical_addr :: "flash \<Rightarrow> u32 \<Rightarrow> u8 list \<Rightarrow> flash" where
  "write_sector_by_physical_addr fl physical_sector_address data =
     (let addr = get_memory_addr_from_physical_sector physical_sector_address;
          fl1 = flash_range_erase fl addr FLASH_SECTOR_SIZE
      in flash_range_program fl1 addr data FLASH_PAGE_SIZE)"

section \<open>Configuration and resolution\<close>

record globals =
  lower_bound :: u32
  upper_bound :: u32
  logical_sectors_count :: u16
  group_by :: u8

text \<open>
  The scan of \<open>get_first_sector_from_logical_id\<close>: a 32-bit counter stepped by
  \<open>group_by\<close>. The result \<open>Some (Some ps)\<close> is "returned true, \<open>*physical_addr = ps\<close>",
  \<open>Some None\<close> is "returned false, \<open>*physical_addr\<close> untouched", and \<open>None\<close> is a scan
  that never ends.
\<close>

partial_function (option) first_sector_loop ::
  "globals \<Rightarrow> flash \<Rightarrow> u16 \<Rightarrow> u32 \<Rightarrow> u32 option option" where
  "first_sector_loop g fl logical_id physical_sector =
     (if physical_sector < upper_bound g then
        (if \<not> check_sector_signature fl physical_sector then
           first_sector_loop g fl logical_id (physical_sector + ucast (group_by g))
         else if get_header_attribute_from_sector fl physical_sector LOGICAL_ID_POSITION
                   = ucast logical_id then
           Some (Some physical_sector)
         else first_sector_loop g fl logical_id (physical_sector + ucast (group_by g)))
      else Some None)"

declare first_sector_loop.simps [code]

definition get_first_sector_from_logical_id ::
  "globals \<Rightarrow> flash \<Rightarrow> u16 \<Rightarrow> u32 option option" where
  "get_first_sector_from_logical_id g fl logical_id =
     first_sector_loop g fl logical_id (lower_bound g)"

text \<open>
  The loop of \<open>get_physical_sector_from_logical_id\<close>; the first argument counts the
  iterations that remain (\<open>group_by - i\<close>).
\<close>

fun sub_sector_walk :: "nat \<Rightarrow> flash \<Rightarrow> u8 \<Rightarrow> u32 \<Rightarrow> u32" where
  "sub_sector_walk 0 fl physical_sector_id physical_sector = physical_sector"
| "sub_sector_walk (Suc n) fl physical_sector_id physical_sector =
     (if get_header_attribute_from_sector fl physical_sector PHYSICAL_ID_POSITION
           = ucast physical_sector_id
      then physical_sector
      else sub_sector_walk n fl physical_sector_id (physical_sector + FLASH_SECTOR_SIZE))"

text \<open>
  The local \<open>physical_sector\<close> is not initialised in the source; \<open>uninit\<close> is the value it
  happens to hold. The result is the returned flag and the value stored to
  \<open>*physical_addr\<close>.
\<close>

definition get_physical_sector_from_logical_id ::
  "globals \<Rightarrow> flash \<Rightarrow> u32 \<Rightarrow> u16 \<Rightarrow> u8 \<Rightarrow> (bool \<times> u32) option" where
  "get_physical_sector_from_logical_id g fl uninit logical_id physical_sector_id =
     do {
       r \<leftarrow> get_first_sector_from_logical_id g fl logical_id;
       let physical_sector = (case r of Some ps \<Rightarrow> ps | None \<Rightarrow> uninit);
       let found = (r \<noteq> None);
       Some (found,
             sub_sector_walk (unat (group_by g)) fl physical_sector_id physical_sector)
     }"

text \<open>\<open>read_sector\<close> returns a pointer; the flag of the lookup is dropped.\<close>

definition read_sector :: "globals \<Rightarrow> flash \<Rightarrow> u32 \<Rightarrow> u16 \<Rightarrow> u32 \<Rightarrow> u32 option" where
  "read_sector g fl uninit logical_sector offset_bytes =
     do {
       let physical_sector_id = offset_bytes div FLASH_SECTOR_SIZE;
       let physical_sector_offset = offset_bytes mod FLASH_SECTOR_SIZE;
       (found, physical_sector_address) \<leftarrow>
          get_physical_sector_from_logical_id g fl uninit logical_sector
            (ucast physical_sector_id);
       Some (get_memory_addr_from_physical_sector
               (physical_sector_address + physical_sector_offset) + XIP_BASE)
     }"

section \<open>Deleting sectors\<close>

text \<open>
  \<open>cleanHeaderBuffer\<close>: \<open>sizeof(SectorHeader)\<close> zero bytes, the rest of the page \<open>0xFF\<close>.
\<close>

definition cleanHeaderBuffer :: "u8 list" where
  "cleanHeaderBuffer =
     replicate sizeof_SectorHeader 0x00
       @ replicate (unat FLASH_PAGE_SIZE - sizeof_SectorHeader) 0xFF"

function delete_loop :: "flash \<Rightarrow> u32 \<Rightarrow> u32 \<Rightarrow> flash" where
  "delete_loop fl physical_sector end_sector =
     (if physical_sector < end_sector then
        delete_loop
          (flash_range_program fl (get_memory_addr_from_physical_sector physical_sector)
             cleanHeaderBuffer FLASH_PAGE_SIZE)
          (physical_sector + 1) end_sector
      else fl)"
  by pat_completeness auto
termination
  by (relation "measure (\<lambda>(fl, ps, e). unat e - unat ps)") (auto, unat_arith)

declare delete_loop.simps [simp del]

definition delete_sectors :: "flash \<Rightarrow> u32 \<Rightarrow> u32 \<Rightarrow> flash" where
  "delete_sectors fl begin_sector end_sector = delete_loop fl begin_sector end_sector"

definition delete_all_sectors :: "globals \<Rightarrow> flash \<Rightarrow> flash" where
  "delete_all_sectors g fl = delete_sectors fl (lower_bound g) (upper_bound g)"

definition delete_sector :: "flash \<Rightarrow> u32 \<Rightarrow> flash" where
  "delete_sector fl physical_sector = delete_sectors fl physical_sector (physical_sector + 1)"

section \<open>Erase paths\<close>

datatype fault = AssertionFailed | AllocNoReturnValue | AllocDivisionByZero

text \<open>
  \<open>erase_physical_sector\<close>: resolve, erase the sector, then read the header back from
  the flash and program it. \<open>None\<close> is a lookup that never ends, \<open>Inl\<close> a failed
  \<open>assert\<close>.
\<close>

definition erase_physical_sector ::
  "globals \<Rightarrow> flash \<Rightarrow> u32 \<Rightarrow> u16 \<Rightarrow> u8 \<Rightarrow> (fault + flash) option" where
  "erase_physical_sector g fl uninit logical_sector physical_sector_id =
     (if \<not> logical_sector < logical_sectors_count g then Some (Inl AssertionFailed)
      else if \<not> physical_sector_id < group_by g then Some (Inl AssertionFailed)
      else do {
        (found, physical_sector_address) \<leftarrow>
           get_physical_sector_from_logical_id g fl uninit logical_sector physical_sector_id;
        let memory_addr = get_memory_addr_from_physical_sector physical_sector_address;
        let fl1 = flash_range_erase fl memory_addr FLASH_SECTOR_SIZE;
        let sectorHeader = read_and_update_header fl1 physical_sector_address;
        let headerBuffer = prepare_buffer_to_write (struct_bytes sectorHeader) sizeof_SectorHeader;
        Some (Inr (flash_range_program fl1 memory_addr headerBuffer FLASH_PAGE_SIZE))
      })"

text \<open>
  The first loop of \<open>erase_logical_sector\<close>: sub-sector \<open>i\<close> is resolved and its header
  read and bumped. \<open>uninit k\<close> is the value the uninitialised local of the \<open>k\<close>-th lookup
  holds; the first argument counts the iterations that remain.
\<close>

fun collect_headers ::
  "nat \<Rightarrow> globals \<Rightarrow> flash \<Rightarrow> (nat \<Rightarrow> u32) \<Rightarrow> u16 \<Rightarrow> u8 \<Rightarrow> SectorHeader list option" where
  "collect_headers 0 g fl uninit logical_sector i = Some []"
| "collect_headers (Suc n) g fl uninit logical_sector i =
     do {
       (found, physical_sector_address) \<leftarrow>
          get_physical_sector_from_logical_id g fl (uninit (unat i)) logical_sector i;
       let h = read_and_update_header fl physical_sector_address;
       hs \<leftarrow> collect_headers n g fl uninit logical_sector (i + 1);
       Some (h # hs)
     }"

text \<open>The second loop: each saved header is programmed at the sector the lookup gives now.\<close>

fun program_headers ::
  "SectorHeader list \<Rightarrow> globals \<Rightarrow> flash \<Rightarrow> (nat \<Rightarrow> u32) \<Rightarrow> u16 \<Rightarrow> u8 \<Rightarrow> flash option" where
  "program_headers [] g fl uninit logical_sector i = Some fl"
| "program_headers (h # hs) g fl uninit logical_sector i =
     do {
       let headerBuffer = prepare_buffer_to_write (struct_bytes h) sizeof_SectorHeader;
       (found, physical_sector_address) \<leftarrow>
          get_physical_sector_from_logical_id g fl
            (uninit (unat (group_by g) + unat i)) logical_sector i;
       let memory_addr = get_memory_addr_from_physical_sector physical_sector_address;
       let fl1 = flash_range_program fl memory_addr headerBuffer FLASH_PAGE_SIZE;
       program_headers hs g fl1 uninit logical_sector (i + 1)
     }"

text \<open>
  In \<open>erase_logical_sector\<close> the local that receives the representative is not
  initialised either: \<open>uninit_rep\<close> is the value it holds when the lookup fails.
\<close>

definition erase_logical_sector ::
  "globals \<Rightarrow> flash \<Rightarrow> (nat \<Rightarrow> u32) \<Rightarrow> u32 \<Rightarrow> u16 \<Rightarrow> (fault + flash) option" where
  "erase_logical_sector g fl uninit uninit_rep logical_sector =
     (if \<not> logical_sector < logical_sectors_count g then Some (Inl AssertionFailed)
      else do {
        sectorHeaders \<leftarrow> collect_headers (unat (group_by g)) g fl uninit logical_sector 0;
        r \<leftarrow> get_first_sector_from_logical_id g fl logical_sector;
        let physical_sector_address = (case r of Some ps \<Rightarrow> ps | None \<Rightarrow> uninit_rep);
        let memory_addr = get_memory_addr_from_physical_sector physical_sector_address;
        let fl1 = flash_range_erase fl memory_addr (FLASH_SECTOR_SIZE * ucast (group_by g));
        fl2 \<leftarrow> program_headers sectorHeaders g fl1 uninit logical_sector 0;
        Some (Inr fl2)
      })"

section \<open>Allocator\<close>

datatype alloc_outcome = Allocated u16 | NoValueReturned | DivisionByZero

text \<open>
  The two probing loops of \<open>_get_random_physical_sector\<close>, with their 16-bit counter.
  \<open>Some (Some ps)\<close>: the loop returned \<open>ps\<close>; \<open>Some None\<close>: the loop ran to its end;
  \<open>None\<close>: it never ends.
\<close>

partial_function (option) check_upwards :: "globals \<Rightarrow> flash \<Rightarrow> u16 \<Rightarrow> u16 option option" where
  "check_upwards g fl physical_sector =
     (if (ucast physical_sector :: u32) < upper_bound g then
        (if \<not> check_sector_signature fl (ucast physical_sector) then Some (Some physical_sector)
         else check_upwards g fl (physical_sector + 1))
      else Some None)"

declare check_upwards.simps [code]

partial_function (option) check_downwards :: "globals \<Rightarrow> flash \<Rightarrow> u16 \<Rightarrow> u16 option option" where
  "check_downwards g fl physical_sector =
     (if lower_bound g \<le> (ucast physical_sector :: u32) then
        (if \<not> check_sector_signature fl (ucast physical_sector) then Some (Some physical_sector)
         else check_downwards g fl (physical_sector - 1))
      else Some None)"

declare check_downwards.simps [code]

text \<open>
  \<open>rnd\<close> is the value \<open>rand()\<close> returns, converted to unsigned. A range of width zero
  makes the source divide by zero; running past both loops leaves the function without
  a return value.
\<close>

definition get_random_physical_sector :: "globals \<Rightarrow> flash \<Rightarrow> u32 \<Rightarrow> alloc_outcome option" where
  "get_random_physical_sector g fl rnd =
     (if upper_bound g - lower_bound g = 0 then Some DivisionByZero
      else do {
        let random_physical_sector =
              (ucast ((rnd mod (upper_bound g - lower_bound g)) + lower_bound g) :: u16);
        up \<leftarrow> check_upwards g fl random_physical_sector;
        case up of
          Some ps \<Rightarrow> Some (Allocated ps)
        | None \<Rightarrow> do {
            down \<leftarrow> check_downwards g fl (random_physical_sector - 1);
            case down of
              Some ps \<Rightarrow> Some (Allocated ps)
            | None \<Rightarrow> Some NoValueReturned
          }
      })"

section \<open>Initialisation\<close>

text \<open>
  The validation sweep of \<open>init_sectors\<close>: the flash and the 16-bit counter
  \<open>unitialized_sectors_count\<close> are threaded through the loop.
\<close>

partial_function (option) validation_sweep ::
  "globals \<Rightarrow> flash \<Rightarrow> u16 \<Rightarrow> u32 \<Rightarrow> (flash \<times> u16) option" where
  "validation_sweep g fl unitialized_sectors_count physical_sector =
     (if physical_sector < upper_bound g then
        (if get_header_attribute_from_sector fl physical_sector 0 \<noteq> MEMORY_SIGNATURE then
           validation_sweep g fl (unitialized_sectors_count + 1)
             (physical_sector + ucast (group_by g))
         else if ucast (logical_sectors_count g)
                   \<le> get_header_attribute_from_sector fl physical_sector 1 then
           validation_sweep g (delete_sector fl physical_sector)
             (unitialized_sectors_count + 1) (physical_sector + ucast (group_by g))
         else validation_sweep g fl unitialized_sectors_count
                (physical_sector + ucast (group_by g)))
      else Some (fl, unitialized_sectors_count))"

declare validation_sweep.simps [code]

text \<open>
  The header of a fresh allocation. The designated initialiser zeroes the member \<open>id\<close>
  it does not name; the padding bytes are taken as zero too (no operation of the library
  reads them).
\<close>

definition fresh_header :: "u32 \<Rightarrow> SectorHeader" where
  "fresh_header logical_id =
     \<lparr>signature = MEMORY_SIGNATURE, logicalID = ucast logical_id, writeCount = 1,
      id_sub = 0, pad = [0, 0, 0]\<rparr>"

text \<open>
  The second loop of \<open>init_sectors\<close>. \<open>rands\<close> is the sequence \<open>rand()\<close> produces and
  \<open>k\<close> the number of values drawn so far; the result carries the final \<open>k\<close>, the number
  of allocations.
\<close>

partial_function (option) initialization_loop ::
  "globals \<Rightarrow> (nat \<Rightarrow> u32) \<Rightarrow> flash \<Rightarrow> u16 \<Rightarrow> nat \<Rightarrow> u32 \<Rightarrow> (fault + flash \<times> nat) option" where
  "initialization_loop g rands fl unitialized_sectors_count k logical_id =
     (if logical_id < ucast (logical_sectors_count g) then
        do {
          found_sector \<leftarrow> get_first_sector_from_logical_id g fl (ucast logical_id);
          if found_sector \<noteq> None then
            initialization_loop g rands fl unitialized_sectors_count k (logical_id + 1)
          else do {
            let headerBuffer =
                  prepare_buffer_to_write (struct_bytes (fresh_header logical_id))
                    sizeof_SectorHeader;
            a \<leftarrow> get_random_physical_sector g fl (rands k);
            case a of
              NoValueReturned \<Rightarrow> Some (Inl AllocNoReturnValue)
            | DivisionByZero \<Rightarrow> Some (Inl AllocDivisionByZero)
            | Allocated ps \<Rightarrow>
                (let fl1 = write_sector_by_physical_addr fl (ucast ps) headerBuffer;
                     c = unitialized_sectors_count - 1
                 in if c = 0 then Some (Inr (fl1, Suc k))
                    else initialization_loop g rands fl1 c (Suc k) (logical_id + 1))
          }
        }
      else Some (Inr (fl, k)))"

declare initialization_loop.simps [code]

definition init_sectors ::
  "globals \<Rightarrow> (nat \<Rightarrow> u32) \<Rightarrow> flash \<Rightarrow> (fault + flash \<times> nat) option" where
  "init_sectors g rands fl =
     do {
       (fl1, unitialized_sectors_count) \<leftarrow> validation_sweep g fl 0 (lower_bound g);
       if unitialized_sectors_count = 0 then Some (Inr (fl1, 0))
       else initialization_loop g rands fl1 unitialized_sectors_count 0 0
     }"

text \<open>The globals \<open>init_flash_lib\<close> sets before it calls \<open>init_sectors\<close>.\<close>

definition configure :: "u32 \<Rightarrow> u16 \<Rightarrow> u8 \<Rightarrow> globals" where
  "configure lower logical_sectors grp =
     \<lparr>lower_bound = lower,
      upper_bound = lower + ucast logical_sectors * ucast grp,
      logical_sectors_count = logical_sectors,
      group_by = grp\<rparr>"

definition init_flash_lib ::
  "u32 \<Rightarrow> u16 \<Rightarrow> u8 \<Rightarrow> (nat \<Rightarrow> u32) \<Rightarrow> flash \<Rightarrow> (fault + flash \<times> nat) option" where
  "init_flash_lib lower logical_sectors grp rands fl =
     init_sectors (configure lower logical_sectors grp) rands fl"

section \<open>Example flash images\<close>

definition erased_flash :: flash where
  "erased_flash = \<lparr>mem = (\<lambda>_. 0xFF), oplog = []\<rparr>"

text \<open>
  The image after a cold boot with \<open>lower_bound = 100\<close>, one logical sector and
  \<open>group_by = 1\<close>: sector 100 carries the header of logical id 0 with write count 1.
\<close>

definition written_flash :: flash where
  "written_flash =
     write_sector_by_physical_addr erased_flash 100
       (prepare_buffer_to_write (struct_bytes (fresh_header 0)) sizeof_SectorHeader)"

text \<open>
  A group of two physical sectors for logical id 0: sector 100 is sub-sector 0 and
  sector 101 is sub-sector 1.
\<close>

definition group_flash :: flash where
  "group_flash =
     write_sector_by_physical_addr written_flash 101
       (prepare_buffer_to_write (struct_bytes ((fresh_header 0)\<lparr>id_sub := 1\<rparr>))
          sizeof_SectorHeader)"

section \<open>Notions used in the statements\<close>

text \<open>
  A sector matches a logical id when its signature is valid and its header carries the
  id: the test of \<open>get_first_sector_from_logical_id\<close>. \<open>group_leaders\<close> lists the
  sectors the stride-\<open>group_by\<close> scans visit for the globals \<open>init_flash_lib\<close> sets.
\<close>

definition sector_matches :: "flash \<Rightarrow> u16 \<Rightarrow> u32 \<Rightarrow> bool" where
  "sector_matches fl logical_id ps \<longleftrightarrow>
     check_sector_signature fl ps
     \<and> get_header_attribute_from_sector fl ps LOGICAL_ID_POSITION = ucast logical_id"

definition stride_from :: "u32 \<Rightarrow> u8 \<Rightarrow> nat \<Rightarrow> u32 list" where
  "stride_from ps grp n = map (\<lambda>k. ps + of_nat k * ucast grp) [0..<n]"

definition group_leaders :: "u32 \<Rightarrow> u16 \<Rightarrow> u8 \<Rightarrow> u32 list" where
  "group_leaders lower logical_sectors grp =
     (if grp \<noteq> 0 \<and> unat lower + unat logical_sectors * unat grp < 2 ^ 32
      then stride_from lower grp (unat logical_sectors) else [])"

text \<open>
  A flash in which every sector with a 16-bit index (offsets below \<open>0x10000000\<close>) carries
  the signature, and every sector above is erased.
\<close>

definition full_low_flash :: flash where
  "full_low_flash =
     \<lparr>mem = (\<lambda>a. if a < 0x10000000
                  then (if a mod 4096 = 0 then 0x21 else if a mod 4096 = 1 then 0x20
                        else if a mod 4096 = 2 then 0x06 else if a mod 4096 = 3 then 0x27
                        else 0xFF)
                  else 0xFF),
      oplog = []\<rparr>"

text \<open>
  The four header fields of a sector; a stale header is valid but carries a logical id
  outside the configured range; a sector needs initialisation when it is not valid or
  stale. \<open>sweep_list\<close> is the validation sweep over an explicit list of sectors, and
  \<open>fresh_buffer\<close> the page image the initialisation loop programs.
\<close>

definition header_fields :: "flash \<Rightarrow> u32 \<Rightarrow> u32 \<times> u32 \<times> u32 \<times> u32" where
  "header_fields fl ps =
     (get_header_attribute_from_sector fl ps SIGNATURE_POSITION,
      get_header_attribute_from_sector fl ps LOGICAL_ID_POSITION,
      get_header_attribute_from_sector fl ps WRITE_COUNT_POSITION,
      get_header_attribute_from_sector fl ps PHYSICAL_ID_POSITION)"

definition stale_header :: "u16 \<Rightarrow> flash \<Rightarrow> u32 \<Rightarrow> bool" where
  "stale_header c fl ps \<longleftrightarrow>
     check_sector_signature fl ps
     \<and> ucast c \<le> get_header_attribute_from_sector fl ps LOGICAL_ID_POSITION"

definition needs_init :: "u16 \<Rightarrow> flash \<Rightarrow> u32 \<Rightarrow> bool" where
  "needs_init c fl ps \<longleftrightarrow>
     \<not> check_sector_signature fl ps
     \<or> ucast c \<le> get_header_attribute_from_sector fl ps LOGICAL_ID_POSITION"

fun sweep_list :: "globals \<Rightarrow> u32 list \<Rightarrow> flash \<Rightarrow> u16 \<Rightarrow> flash \<times> u16" where
  "sweep_list g [] fl cnt = (fl, cnt)"
| "sweep_list g (ps # pss) fl cnt =
     (if get_header_attribute_from_sector fl ps 0 \<noteq> MEMORY_SIGNATURE then
        sweep_list g pss fl (cnt + 1)
      else if ucast (logical_sectors_count g) \<le> get_header_attribute_from_sector fl ps 1 then
        sweep_list g pss (delete_sector fl ps) (cnt + 1)
      else sweep_list g pss fl cnt)"

definition fresh_buffer :: "u32 \<Rightarrow> u8 list" where
  "fresh_buffer logical_id =
     prepare_buffer_to_write (struct_bytes (fresh_header logical_id)) sizeof_SectorHeader"

text \<open>A flash whose sector 100 carries a valid header with logical id 7.\<close>

definition stale_flash :: flash where
  "stale_flash = write_sector_by_physical_addr erased_flash 100 (fresh_buffer 7)"

text \<open>
  A random source that yields 0, 1, 2, ... and the flash after the first \<open>n\<close> allocations
  of a cold boot at \<open>lower_bound = 100\<close> under it: logical id \<open>k\<close> sits in sector
  \<open>100 + k\<close>.
\<close>

definition ascending :: "nat \<Rightarrow> u32" where
  "ascending k = of_nat k"

definition cold_boot_prefix :: "nat \<Rightarrow> flash" where
  "cold_boot_prefix n =
     foldl (\<lambda>fl k. write_sector_by_physical_addr fl (100 + of_nat k) (fresh_buffer (of_nat k)))
       erased_flash [0..<n]"

text \<open>
  Notions for a configuration with \<open>group_by = 1\<close>: the sectors of the address space,
  those without a valid signature, the driver calls of a list of allocations, the
  invariant of the initialisation loop before it handles logical id \<open>l\<close>, and what the
  loop has done when it returns the flash \<open>fl'\<close> after allocating the sectors \<open>ss\<close>.
\<close>

definition space :: "u32 \<Rightarrow> u16 \<Rightarrow> u32 set" where
  "space lower c = set (group_leaders lower c 1)"

definition free_sectors :: "u32 \<Rightarrow> u16 \<Rightarrow> flash \<Rightarrow> u32 set" where
  "free_sectors lower c fl = {s \<in> space lower c. \<not> check_sector_signature fl s}"

definition allocation_ops :: "u32 list \<Rightarrow> flash_op list" where
  "allocation_ops ss =
     concat (map (\<lambda>s. [Erase (get_memory_addr_from_physical_sector s) FLASH_SECTOR_SIZE,
                          Program (get_memory_addr_from_physical_sector s) FLASH_PAGE_SIZE]) ss)"

definition fill_invariant :: "u32 \<Rightarrow> u16 \<Rightarrow> flash \<Rightarrow> u16 \<Rightarrow> u32 \<Rightarrow> bool" where
  "fill_invariant lower c fl cnt l \<longleftrightarrow>
     unat l \<le> unat c \<and> cnt \<noteq> 0
     \<and> unat cnt = card (free_sectors lower c fl)
     \<and> (\<forall>s\<in>space lower c. check_sector_signature fl s \<longrightarrow>
            get_header_attribute_from_sector fl s LOGICAL_ID_POSITION < ucast c)
     \<and> (\<forall>i<unat l. \<exists>s\<in>space lower c. check_sector_signature fl s
            \<and> get_header_attribute_from_sector fl s LOGICAL_ID_POSITION = of_nat i)"

definition fill_result :: "u32 \<Rightarrow> u16 \<Rightarrow> flash \<Rightarrow> u32 \<Rightarrow> flash \<Rightarrow> u32 list \<Rightarrow> bool" where
  "fill_result lower c fl l fl' ss \<longleftrightarrow>
     distinct ss \<and> set ss = free_sectors lower c fl
     \<and> oplog fl' = oplog fl @ allocation_ops ss
     \<and> (\<forall>s\<in>space lower c. check_sector_signature fl' s
            \<and> get_header_attribute_from_sector fl' s LOGICAL_ID_POSITION < ucast c)
     \<and> (\<forall>s\<in>space lower c. check_sector_signature fl s \<longrightarrow>
            header_fields fl' s = header_fields fl s)
     \<and> (\<forall>s\<in>set ss. get_header_attribute_from_sector fl' s WRITE_COUNT_POSITION = 1
            \<and> l \<le> get_header_attribute_from_sector fl' s LOGICAL_ID_POSITION)
     \<and> distinct (map (\<lambda>s. get_header_attribute_from_sector fl' s LOGICAL_ID_POSITION) ss)"

text \<open>
  Two images left by a first initialisation. \<open>misplaced_flash\<close>: with one logical sector
  of two physical sectors at \<open>lower_bound = 100\<close>, the header of logical id 0 was
  programmed into sector 101. \<open>wrapped_flash\<close>: with two logical sectors at
  \<open>lower_bound = 65534\<close>, logical id 0 sits in sector 65535 and logical id 1 in sector 0.
\<close>

definition misplaced_flash :: flash where
  "misplaced_flash = write_sector_by_physical_addr erased_flash 101 (fresh_buffer 0)"

definition wrapped_flash :: flash where
  "wrapped_flash =
     write_sector_by_physical_addr
       (write_sector_by_physical_addr erased_flash 65535 (fresh_buffer 0)) 0 (fresh_buffer 1)"

section \<open>Basic facts about the flash device\<close>

lemmas hw_consts = FLASH_SECTOR_SIZE_def FLASH_PAGE_SIZE_def XIP_BASE_def MEMORY_SIGNATURE_def
  SIGNATURE_SIZE_BYTES_def SIGNATURE_POSITION_def LOGICAL_ID_POSITION_def WRITE_COUNT_POSITION_def
  PHYSICAL_ID_POSITION_def sizeof_SectorHeader_def sizeof_uint16_def

lemma upt_4: "[0..<4] = [0,1,2,3]" by (simp add: upt_rec)
lemma upt_2: "[0..<2] = [0,1]" by (simp add: upt_rec)
lemma upt_12: "[0..<12] = [0,1,2,3,4,5,6,7,8,9,10,11]" by (simp add: upt_rec)

lemma attr0: "get_header_attribute_from_sector fl ps 0 =
   le_word [mem fl (get_memory_addr_from_physical_sector ps), mem fl (get_memory_addr_from_physical_sector ps + 1), mem fl (get_memory_addr_from_physical_sector ps + 2), mem fl (get_memory_addr_from_physical_sector ps + 3)]"
  by (simp add: get_header_attribute_from_sector_def get_sector_read_pointer_def
       memcpy_from_def xip_read_def SIGNATURE_SIZE_BYTES_def sizeof_uint16_def upt_4)

lemma attr1: "get_header_attribute_from_sector fl ps 1 =
   le_word [mem fl (get_memory_addr_from_physical_sector ps + 4), mem fl (get_memory_addr_from_physical_sector ps + 5)]"
  by (simp add: get_header_attribute_from_sector_def get_sector_read_pointer_def
       memcpy_from_def xip_read_def SIGNATURE_SIZE_BYTES_def sizeof_uint16_def upt_2 add.assoc)

lemma attr2: "get_header_attribute_from_sector fl ps 2 =
   le_word [mem fl (get_memory_addr_from_physical_sector ps + 6), mem fl (get_memory_addr_from_physical_sector ps + 7)]"
  by (simp add: get_header_attribute_from_sector_def get_sector_read_pointer_def
       memcpy_from_def xip_read_def SIGNATURE_SIZE_BYTES_def sizeof_uint16_def upt_2 add.assoc)

lemma attr3: "get_header_attribute_from_sector fl ps 3 =
   le_word [mem fl (get_memory_addr_from_physical_sector ps + 8)]"
  by (simp add: get_header_attribute_from_sector_def get_sector_read_pointer_def
       memcpy_from_def xip_read_def SIGNATURE_SIZE_BYTES_def sizeof_uint16_def add.assoc)

lemma unat_add32: "unat (x::u32) + unat y < 4294967296 \<Longrightarrow> unat (x + y) = unat x + unat y"
  using unat_add_lem[of x y] by simp

lemma unat_mult_4096: "unat ((x::u32) * 4096) mod 4096 = 0"
  by (simp add: unat_word_ariths mod_mod_cancel)

lemma unat_mult_4096_bound: "unat ((x::u32) * 4096) \<le> 4294963200"
proof -
  obtain q where q: "unat (x * 4096) = 4096 * q"
    using unat_mult_4096[of x] by (auto simp: mod_eq_0_iff_dvd elim: dvdE)
  have "unat (x * 4096) < 4294967296" using unsigned_less[of "x * 4096"] by simp
  with q have "q < 1048576" by simp
  hence "q \<le> 1048575" by simp
  with q show ?thesis by simp
qed

lemma sector_span:
  fixes s s' k n :: u32
  assumes "k < 4096" "n \<le> 4096"
  shows "((s' * 4096 + k) - s * 4096 < n) = (s' * 4096 = s * 4096 \<and> k < n)"
proof -
  define d where "d = (s' - s) * 4096"
  have e: "(s' * 4096 + k) - s * 4096 = d + k" by (simp add: d_def algebra_simps)
  obtain q where q: "unat d = 4096 * q"
    using unat_mult_4096[of "s' - s"] unfolding d_def by (auto simp: mod_eq_0_iff_dvd elim: dvdE)
  have dl: "unat d \<le> 4294963200" unfolding d_def by (rule unat_mult_4096_bound)
  have kl: "unat k < 4096" using assms(1) by (simp add: word_less_nat_alt)
  have u: "unat (d + k) = unat d + unat k" using dl kl by (intro unat_add32) simp
  have z: "(d = 0) = (s' * 4096 = s * 4096)" by (simp add: d_def algebra_simps)
  have nl: "unat n \<le> 4096" using assms(2) by (simp add: word_le_nat_alt)
  have "(d + k < n) = (unat d + unat k < unat n)" by (simp add: word_less_nat_alt u)
  also have "\<dots> = (unat d = 0 \<and> unat k < unat n)"
  proof (cases "q = 0")
    case True thus ?thesis using q by simp
  next
    case False
    hence "4096 \<le> unat d" using q by simp
    thus ?thesis using nl by simp
  qed
  also have "\<dots> = (d = 0 \<and> k < n)" by (simp add: unat_eq_0 word_less_nat_alt)
  finally show ?thesis by (simp add: e z)
qed

lemma and_FF [simp]: "(x::u8) AND 0xFF = x"
proof -
  have "(0xFF::u8) = - 1" by simp
  thus ?thesis by (simp only: and.right_neutral)
qed

lemma mem_erase: "mem (flash_range_erase fl offs c) a = (if a - offs < c then 0xFF else mem fl a)"
  by (simp add: flash_range_erase_def)

lemma mem_program: "mem (flash_range_program fl offs data c) a =
    (if a - offs < c \<and> unat (a - offs) < length data
     then mem fl a AND data ! unat (a - offs) else mem fl a)"
  by (simp add: flash_range_program_def)

lemma oplog_erase: "oplog (flash_range_erase fl offs c) = oplog fl @ [Erase offs c]"
  by (simp add: flash_range_erase_def)

lemma oplog_program: "oplog (flash_range_program fl offs data c) = oplog fl @ [Program offs c]"
  by (simp add: flash_range_program_def)

lemma length_cleanHeaderBuffer: "length cleanHeaderBuffer = 256"
  by (simp add: cleanHeaderBuffer_def sizeof_SectorHeader_def FLASH_PAGE_SIZE_def)

lemma nth_cleanHeaderBuffer:
  "i < 256 \<Longrightarrow> cleanHeaderBuffer ! i = (if i < 12 then 0 else 0xFF)"
  by (simp add: cleanHeaderBuffer_def sizeof_SectorHeader_def FLASH_PAGE_SIZE_def nth_append)

lemma mem_program_clean:
  "mem (flash_range_program fl offs cleanHeaderBuffer FLASH_PAGE_SIZE) a =
     (if a - offs < 12 then 0 else mem fl a)"
proof (cases "a - offs < 256")
  case True
  hence u: "unat (a - offs) < 256" by (simp add: word_less_nat_alt)
  have "(a - offs < 12) = (unat (a - offs) < 12)" by (simp add: word_less_nat_alt)
  thus ?thesis using True u
    by (simp add: mem_program length_cleanHeaderBuffer nth_cleanHeaderBuffer FLASH_PAGE_SIZE_def)
next
  case False
  hence "\<not> a - offs < 12" by (simp add: word_less_nat_alt)
  thus ?thesis using False by (simp add: mem_program FLASH_PAGE_SIZE_def)
qed

lemma unat_succ32:
  fixes ps e :: u32
  assumes "ps < e"
  shows "unat (ps + 1) = unat ps + 1"
proof -
  have "unat ps < unat e" using assms by (simp add: word_less_nat_alt)
  moreover have "unat e < 4294967296" using unsigned_less[of e] by simp
  ultimately have "unat ps + unat (1::u32) < 4294967296" by simp
  from unat_add32[OF this] show ?thesis by simp
qed

lemma word_le_iff_eq_or_succ_le:
  fixes ps q e :: u32
  assumes "ps < e"
  shows "(ps \<le> q) = (q = ps \<or> ps + 1 \<le> q)"
proof -
  have "(q = ps) = (unat q = unat ps)" by (simp add: word_unat_eq_iff)
  thus ?thesis
    by (auto simp add: word_le_nat_alt unat_succ32[OF assms])
qed

lemma mem_delete_loop:
  "mem (delete_loop fl b e) a =
     (if \<exists>ps. b \<le> ps \<and> ps < e \<and> a - get_memory_addr_from_physical_sector ps < 12
      then 0 else mem fl a)"
proof (induction fl b e rule: delete_loop.induct)
  case (1 fl ps e)
  show ?case
  proof (cases "ps < e")
    case True
    note IH = 1[OF True]
    have split: "\<And>q. (ps \<le> q) = (q = ps \<or> ps + 1 \<le> q)"
      using True by (rule word_le_iff_eq_or_succ_le)
    have "mem (delete_loop fl ps e) a =
       mem (delete_loop (flash_range_program fl (get_memory_addr_from_physical_sector ps)
             cleanHeaderBuffer FLASH_PAGE_SIZE) (ps + 1) e) a"
      using True by (subst delete_loop.simps) simp
    also have "\<dots> = (if \<exists>q. ps + 1 \<le> q \<and> q < e \<and> a - get_memory_addr_from_physical_sector q < 12
         then 0 else if a - get_memory_addr_from_physical_sector ps < 12 then 0 else mem fl a)"
      by (simp only: IH mem_program_clean)
    also have "\<dots> = (if \<exists>q. ps \<le> q \<and> q < e \<and> a - get_memory_addr_from_physical_sector q < 12
         then 0 else mem fl a)"
    proof -
      have "(\<exists>q. ps \<le> q \<and> q < e \<and> a - get_memory_addr_from_physical_sector q < 12) =
            (a - get_memory_addr_from_physical_sector ps < 12 \<or>
             (\<exists>q. ps + 1 \<le> q \<and> q < e \<and> a - get_memory_addr_from_physical_sector q < 12))"
      proof
        assume "\<exists>q. ps \<le> q \<and> q < e \<and> a - get_memory_addr_from_physical_sector q < 12"
        then obtain q where q: "ps \<le> q" "q < e" "a - get_memory_addr_from_physical_sector q < 12"
          by blast
        from q(1) have "q = ps \<or> ps + 1 \<le> q" by (simp only: split[of q])
        with q show "a - get_memory_addr_from_physical_sector ps < 12 \<or>
             (\<exists>q. ps + 1 \<le> q \<and> q < e \<and> a - get_memory_addr_from_physical_sector q < 12)"
          by blast
      next
        assume r: "a - get_memory_addr_from_physical_sector ps < 12 \<or>
             (\<exists>q. ps + 1 \<le> q \<and> q < e \<and> a - get_memory_addr_from_physical_sector q < 12)"
        show "\<exists>q. ps \<le> q \<and> q < e \<and> a - get_memory_addr_from_physical_sector q < 12"
        proof (rule disjE[OF r])
          assume "a - get_memory_addr_from_physical_sector ps < 12"
          with True show ?thesis by (intro exI[of _ ps]) simp
        next
          assume "\<exists>q. ps + 1 \<le> q \<and> q < e \<and> a - get_memory_addr_from_physical_sector q < 12"
          then obtain q where q: "ps + 1 \<le> q" "q < e" "a - get_memory_addr_from_physical_sector q < 12"
            by blast
          from q(1) have "ps \<le> q" by (simp only: split[of q] simp_thms)
          with q show ?thesis by blast
        qed
      qed
      thus ?thesis by (simp only:) auto
    qed
    finally show ?thesis .
  next
    case False
    hence "\<not> (\<exists>q. ps \<le> q \<and> q < e)" by auto
    thus ?thesis using False by (subst delete_loop.simps) auto
  qed
qed

lemma delete_sector_unfold:
  "ps + 1 \<noteq> 0 \<Longrightarrow>
   delete_sector fl ps =
     flash_range_program fl (get_memory_addr_from_physical_sector ps) cleanHeaderBuffer
       FLASH_PAGE_SIZE"
proof -
  assume "ps + 1 \<noteq> 0"
  hence lt: "ps < ps + 1" by (simp add: word_less_nat_alt unatSuc add.commute)
  show ?thesis
    unfolding delete_sector_def delete_sectors_def
    by (subst delete_loop.simps, simp add: lt, subst delete_loop.simps, simp)
qed

lemma signature_zero_not_valid:
  assumes "\<And>k. k < 12 \<Longrightarrow> mem fl (get_memory_addr_from_physical_sector ps + k) = 0"
  shows "\<not> check_sector_signature fl ps"
proof -
  have "get_header_attribute_from_sector fl ps 0 = 0"
    using assms[of 0] by (simp add: attr0 assms le_word_def)
  thus ?thesis by (simp add: check_sector_signature_def SIGNATURE_POSITION_def MEMORY_SIGNATURE_def)
qed

lemma delete_loop_not_valid:
  assumes "b \<le> q" "q < e"
  shows "\<not> check_sector_signature (delete_loop fl b e) q"
proof (rule signature_zero_not_valid)
  fix k :: u32 assume "k < 12"
  hence "\<exists>ps. b \<le> ps \<and> ps < e \<and>
      get_memory_addr_from_physical_sector q + k - get_memory_addr_from_physical_sector ps < 12"
    using assms by (intro exI[of _ q]) simp
  thus "mem (delete_loop fl b e) (get_memory_addr_from_physical_sector q + k) = 0"
    by (simp only: mem_delete_loop if_True)
qed

section \<open>The representative lookup\<close>

lemma stride_from_0 [simp]: "stride_from ps grp 0 = []"
  by (simp add: stride_from_def)

lemma stride_from_Suc: "stride_from ps grp (Suc n) = ps # stride_from (ps + ucast grp) grp n"
proof -
  have "[0..<Suc n] = 0 # map Suc [0..<n]"
    by (simp add: upt_conv_Cons map_Suc_upt del: upt_Suc)
  thus ?thesis
    by (simp add: stride_from_def o_def algebra_simps del: upt_Suc)
qed

lemma unat_ucast_u8 [simp]: "unat (ucast (x::u8) :: u32) = unat x"
proof -
  have "unat x < 2 ^ 32" using unsigned_less[of x, where 'a=nat] by simp
  thus ?thesis by (simp add: unsigned_ucast_eq take_bit_nat_eq_self)
qed

lemma unat_ucast_u16 [simp]: "unat (ucast (x::u16) :: u32) = unat x"
proof -
  have "unat x < 2 ^ 32" using unsigned_less[of x, where 'a=nat] by simp
  thus ?thesis by (simp add: unsigned_ucast_eq take_bit_nat_eq_self)
qed

lemma unat_ucast_down: "unat (x::u32) < 65536 \<Longrightarrow> unat (ucast x :: u16) = unat x"
  by (simp add: unsigned_ucast_eq take_bit_nat_eq_self)

lemma stride_step:
  fixes ps :: u32 and grp :: u8
  assumes "unat ps + Suc n * unat grp = unat (up::u32)"
  shows "unat (ps + ucast grp) = unat ps + unat grp"
    and "unat (ps + ucast grp) + n * unat grp = unat up"
proof -
  have "unat up < 4294967296" using unsigned_less[of up] by simp
  hence "unat ps + unat (ucast grp :: u32) < 4294967296" using assms by simp
  from unat_add32[OF this] show a: "unat (ps + ucast grp) = unat ps + unat grp" by simp
  show "unat (ps + ucast grp) + n * unat grp = unat up" using assms by (simp add: a)
qed

lemma first_sector_loop_stride:
  assumes "unat ps + n * unat (group_by g) = unat (upper_bound g)"
      and "n = 0 \<or> group_by g \<noteq> 0"
  shows "first_sector_loop g fl lid ps
           = Some (find (sector_matches fl lid) (stride_from ps (group_by g) n))"
  using assms
proof (induction n arbitrary: ps)
  case 0
  hence "\<not> ps < upper_bound g" by (simp add: word_less_nat_alt)
  thus ?case by (subst first_sector_loop.simps) simp
next
  case (Suc n)
  hence nz: "group_by g \<noteq> 0" by simp
  hence "0 < unat (group_by g)" by (simp add: unat_gt_0)
  hence lt: "ps < upper_bound g" using Suc.prems(1) by (simp add: word_less_nat_alt)
  note st = stride_step[OF Suc.prems(1)]
  have IH: "first_sector_loop g fl lid (ps + ucast (group_by g))
        = Some (find (sector_matches fl lid) (stride_from (ps + ucast (group_by g)) (group_by g) n))"
    using st(2) nz by (intro Suc.IH) simp_all
  show ?case
    by (subst first_sector_loop.simps)
       (simp add: lt IH stride_from_Suc sector_matches_def)
qed

lemma unat_count_times_group:
  "unat (ucast (c::u16) * ucast (grp::u8) :: u32) = unat c * unat grp"
proof -
  have "unat c < 65536" using unsigned_less[of c, where 'a=nat] by simp
  moreover have "unat grp < 256" using unsigned_less[of grp, where 'a=nat] by simp
  ultimately have "unat c * unat grp < 65536 * 256"
    by (intro mult_strict_mono) simp_all
  hence "unat (ucast c :: u32) * unat (ucast grp :: u32) < 2 ^ LENGTH(32)" by simp
  thus ?thesis by (simp add: unat_mult_lem[THEN iffD1])
qed

lemma upper_bound_configure_no_wrap:
  assumes "unat lower + unat c * unat grp < 2 ^ 32"
  shows "unat (upper_bound (configure lower c grp)) = unat lower + unat c * unat grp"
proof -
  have "unat lower + unat (ucast c * ucast grp :: u32) < 4294967296"
    using assms by (simp add: unat_count_times_group)
  from unat_add32[OF this] show ?thesis
    by (simp add: configure_def unat_count_times_group)
qed

lemma upper_bound_configure_wrap:
  assumes "\<not> unat lower + unat c * unat grp < 2 ^ 32"
  shows "\<not> lower < upper_bound (configure lower c grp)"
proof -
  have "unat (lower + ucast c * ucast grp) = (unat lower + unat c * unat grp) mod 2 ^ 32"
    by (simp add: unat_word_ariths(1) unat_count_times_group)
  moreover have "unat lower < 2 ^ 32" using unsigned_less[of lower, where 'a=nat] by simp
  moreover have "unat c * unat grp < 2 ^ 32"
    using unsigned_less[of "ucast c * ucast grp :: u32", where 'a=nat]
    by (simp add: unat_count_times_group)
  ultimately have "unat (lower + ucast c * ucast grp) = unat lower + unat c * unat grp - 2 ^ 32"
    using assms by (simp add: mod_if)
  thus ?thesis using assms \<open>unat c * unat grp < 2 ^ 32\<close>
    by (simp add: configure_def word_less_nat_alt)
qed

lemma configure_simps [simp]:
  "lower_bound (configure lower c grp) = lower"
  "logical_sectors_count (configure lower c grp) = c"
  "group_by (configure lower c grp) = grp"
  by (simp_all add: configure_def)

lemma get_first_sector_configure:
  "get_first_sector_from_logical_id (configure lower c grp) fl lid
     = Some (find (sector_matches fl lid) (group_leaders lower c grp))"
proof (cases "grp \<noteq> 0 \<and> unat lower + unat c * unat grp < 2 ^ 32")
  case True
  hence "unat lower + unat c * unat (group_by (configure lower c grp))
           = unat (upper_bound (configure lower c grp))"
    by (simp add: upper_bound_configure_no_wrap)
  from first_sector_loop_stride[OF this] True show ?thesis
    by (simp add: get_first_sector_from_logical_id_def group_leaders_def)
next
  case False
  have "\<not> lower < upper_bound (configure lower c grp)"
  proof (cases "grp = 0")
    case True thus ?thesis by (simp add: configure_def)
  next
    case False
    with \<open>\<not> (grp \<noteq> 0 \<and> unat lower + unat c * unat grp < 2 ^ 32)\<close>
    show ?thesis by (intro upper_bound_configure_wrap) simp
  qed
  thus ?thesis using False
    by (subst get_first_sector_from_logical_id_def, subst first_sector_loop.simps)
       (auto simp add: group_leaders_def)
qed

lemma stride_from_bounds:
  assumes "unat ps + n * unat grp = unat (up::u32)" "grp \<noteq> 0"
      and "q \<in> set (stride_from ps grp n)"
  shows "ps \<le> q \<and> q < up"
  using assms
proof (induction n arbitrary: ps)
  case 0 thus ?case by simp
next
  case (Suc n)
  note st = stride_step[OF Suc.prems(1)]
  have "0 < unat grp" using Suc.prems(2) by (simp add: unat_gt_0)
  hence lt: "ps < up" using Suc.prems(1) by (simp add: word_less_nat_alt)
  from Suc.prems(3) have "q = ps \<or> q \<in> set (stride_from (ps + ucast grp) grp n)"
    by (simp add: stride_from_Suc)
  thus ?case
  proof
    assume "q = ps" thus ?thesis using lt by simp
  next
    assume "q \<in> set (stride_from (ps + ucast grp) grp n)"
    from Suc.IH[OF st(2) Suc.prems(2) this] have "ps + ucast grp \<le> q" "q < up" by simp_all
    moreover have "ps \<le> ps + ucast grp" by (simp add: word_le_nat_alt st(1))
    ultimately show ?thesis by simp
  qed
qed

lemma group_leaders_bounds:
  assumes "q \<in> set (group_leaders lower c grp)"
  shows "lower \<le> q \<and> q < upper_bound (configure lower c grp)"
proof -
  from assms have t: "grp \<noteq> 0" "unat lower + unat c * unat grp < 2 ^ 32"
    and q: "q \<in> set (stride_from lower grp (unat c))"
    by (auto simp: group_leaders_def split: if_splits)
  have "unat lower + unat c * unat grp = unat (upper_bound (configure lower c grp))"
    using t(2) by (simp add: upper_bound_configure_no_wrap)
  from stride_from_bounds[OF this t(1) q] show ?thesis .
qed

lemma sub_sector_walk_offset:
  "\<exists>k\<le>n. sub_sector_walk n fl psid ps = ps + of_nat k * FLASH_SECTOR_SIZE"
proof (induction n arbitrary: ps)
  case 0 show ?case by simp
next
  case (Suc n)
  show ?case
  proof (cases "get_header_attribute_from_sector fl ps PHYSICAL_ID_POSITION = ucast psid")
    case True
    thus ?thesis by (intro exI[of _ 0]) simp
  next
    case False
    from Suc[of "ps + FLASH_SECTOR_SIZE"] obtain k where
      k: "k \<le> n" "sub_sector_walk n fl psid (ps + FLASH_SECTOR_SIZE)
                    = ps + FLASH_SECTOR_SIZE + of_nat k * FLASH_SECTOR_SIZE" by blast
    show ?thesis using False k by (intro exI[of _ "Suc k"]) (simp add: algebra_simps)
  qed
qed

section \<open>The allocator\<close>

lemma unat_ucast_u16_times_4096:
  "unat ((ucast (p::u16) :: u32) * 4096) = unat p * 4096"
proof -
  have "unat p < 65536" using unsigned_less[of p, where 'a=nat] by simp
  hence "unat (ucast p :: u32) * unat (4096 :: u32) < 2 ^ LENGTH(32)" by simp
  from unat_mult_lem[THEN iffD1, OF this] show ?thesis by simp
qed

lemma low_sector_byte:
  fixes p :: u16 and k :: u32
  assumes "k < 4096"
  shows "ucast p * 4096 + k < (0x10000000 :: u32)" "(ucast p * 4096 + k) mod 4096 = k"
proof -
  have p: "unat p < 65536" using unsigned_less[of p, where 'a=nat] by simp
  have k: "unat k < 4096" using assms by (simp add: word_less_nat_alt)
  have "unat ((ucast p :: u32) * 4096) + unat k < 4294967296"
    using p k by (simp add: unat_ucast_u16_times_4096)
  from unat_add32[OF this]
  have u: "unat (ucast p * 4096 + k) = unat p * 4096 + unat k"
    by (simp add: unat_ucast_u16_times_4096)
  show "ucast p * 4096 + k < (0x10000000 :: u32)"
    using p k by (simp add: word_less_nat_alt u)
  have "unat ((ucast p * 4096 + k) mod 4096) = unat k"
    using k by (simp add: unat_mod u)
  thus "(ucast p * 4096 + k) mod 4096 = k" by (simp add: word_unat_eq_iff)
qed

lemma full_low_flash_valid: "check_sector_signature full_low_flash (ucast (p::u16))"
  using low_sector_byte[of 0 p] low_sector_byte[of 1 p] low_sector_byte[of 2 p] low_sector_byte[of 3 p]
  by (simp add: check_sector_signature_def SIGNATURE_POSITION_def attr0 full_low_flash_def
       get_memory_addr_from_physical_sector_def FLASH_SECTOR_SIZE_def le_word_def
       MEMORY_SIGNATURE_def)

lemma check_upwards_diverges:
  assumes "\<And>p::u16. (ucast p :: u32) < upper_bound g"
      and "\<And>p::u16. check_sector_signature fl (ucast p)"
  shows "check_upwards g fl ps = None"
proof (rule ccontr)
  assume "check_upwards g fl ps \<noteq> None"
  then obtain y where y: "check_upwards g fl ps = Some y" by auto
  have "(\<forall>p::u16. (ucast p :: u32) < upper_bound g)
        \<and> (\<forall>p::u16. check_sector_signature fl (ucast p)) \<longrightarrow> False"
    by (rule check_upwards.raw_induct
          [where P = "\<lambda>g fl ps y. (\<forall>p::u16. (ucast p :: u32) < upper_bound g)
                        \<and> (\<forall>p::u16. check_sector_signature fl (ucast p)) \<longrightarrow> False",
           OF _ y])
       (auto split: if_splits)
  thus False using assms by simp
qed

lemma unat_succ16:
  fixes ps :: u16
  assumes "unat ps < 65535"
  shows "unat (ps + 1) = unat ps + 1"
proof -
  have "unat ps + unat (1::u16) < 2 ^ LENGTH(16)" using assms by simp
  from unat_add_lem[THEN iffD1, OF this] show ?thesis by simp
qed

lemma ucast16_less: "((ucast (p::u16) :: u32) < x) = (unat p < unat x)"
  by (simp add: word_less_nat_alt)

lemma ucast16_le: "(x \<le> (ucast (p::u16) :: u32)) = (unat x \<le> unat p)"
  by (simp add: word_le_nat_alt)

lemma check_upwards_cyclic:
  assumes all: "\<And>p::u16. (ucast p :: u32) < upper_bound g"
      and free: "\<not> check_sector_signature fl (ucast (q::u16))"
  shows "\<exists>q'. check_upwards g fl ps = Some (Some q') \<and> \<not> check_sector_signature fl (ucast q')"
proof (induction "unat (q - ps)" arbitrary: ps rule: less_induct)
  case less
  show ?case
  proof (cases "check_sector_signature fl (ucast ps)")
    case False
    thus ?thesis by (subst check_upwards.simps) (simp add: all)
  next
    case True
    hence "q - ps \<noteq> 0" using free by auto
    hence "unat (q - (ps + 1)) < unat (q - ps)"
      using unat_minus_one[of "q - ps"] by (simp add: diff_diff_eq unat_gt_0)
    from less[OF this] obtain q' where
      "check_upwards g fl (ps + 1) = Some (Some q')" "\<not> check_sector_signature fl (ucast q')"
      by blast
    thus ?thesis using True by (subst check_upwards.simps) (simp add: all)
  qed
qed

lemma check_upwards_bounded:
  assumes up: "unat (upper_bound g) \<le> 65535"
  shows "\<exists>res. check_upwards g fl ps = Some res \<and>
           (case res of
              Some q \<Rightarrow> ps \<le> q \<and> (ucast q :: u32) < upper_bound g
                          \<and> \<not> check_sector_signature fl (ucast q)
            | None \<Rightarrow> \<forall>q. ps \<le> q \<and> (ucast q :: u32) < upper_bound g
                          \<longrightarrow> check_sector_signature fl (ucast q))"
proof (induction "unat (upper_bound g) - unat ps" arbitrary: ps rule: less_induct)
  case less
  show ?case
  proof (cases "(ucast ps :: u32) < upper_bound g")
    case False
    hence "\<forall>q. ps \<le> q \<longrightarrow> \<not> (ucast q :: u32) < upper_bound g"
      by (simp add: ucast16_less word_le_nat_alt)
    thus ?thesis using False by (subst check_upwards.simps) auto
  next
    case True
    hence lt: "unat ps < unat (upper_bound g)" by (simp add: ucast16_less)
    show ?thesis
    proof (cases "check_sector_signature fl (ucast ps)")
      case False
      thus ?thesis using True by (subst check_upwards.simps) simp
    next
      case valid: True
      have s: "unat (ps + 1) = unat ps + 1" using lt up by (intro unat_succ16) simp
      hence "unat (upper_bound g) - unat (ps + 1) < unat (upper_bound g) - unat ps"
        using lt by simp
      from less[OF this] obtain res where
        r: "check_upwards g fl (ps + 1) = Some res"
           "(case res of
              Some q \<Rightarrow> ps + 1 \<le> q \<and> (ucast q :: u32) < upper_bound g
                          \<and> \<not> check_sector_signature fl (ucast q)
            | None \<Rightarrow> \<forall>q. ps + 1 \<le> q \<and> (ucast q :: u32) < upper_bound g
                          \<longrightarrow> check_sector_signature fl (ucast q))"
        by blast
      have e: "check_upwards g fl ps = Some res"
        using True valid r(1) by (subst check_upwards.simps) simp
      have sp: "\<And>q. (ps \<le> q) = (q = ps \<or> ps + 1 \<le> q)"
        by (auto simp: word_le_nat_alt s word_unat_eq_iff)
      show ?thesis
      proof (cases res)
        case None
        thus ?thesis using e r(2) valid by (auto simp: sp)
      next
        case (Some q)
        thus ?thesis using e r(2) by (auto simp: sp)
      qed
    qed
  qed
qed

lemma check_downwards_finds:
  assumes "lower_bound g \<le> ucast (q::u16)" "q \<le> ps"
      and "\<not> check_sector_signature fl (ucast q)"
  shows "\<exists>q'. check_downwards g fl ps = Some (Some q') \<and> q \<le> q' \<and> q' \<le> ps
              \<and> \<not> check_sector_signature fl (ucast q')"
  using assms(2)
proof (induction "unat ps - unat q" arbitrary: ps rule: less_induct)
  case less
  have lo: "lower_bound g \<le> ucast ps"
    using assms(1) less.prems by (simp add: ucast16_le word_le_nat_alt)
  show ?case
  proof (cases "check_sector_signature fl (ucast ps)")
    case False
    thus ?thesis using lo less.prems by (subst check_downwards.simps) simp
  next
    case True
    hence ne: "ps \<noteq> q" using assms(3) by auto
    hence lt: "unat q < unat ps" using less.prems by (simp add: word_le_nat_alt word_unat_eq_iff)
    hence "ps \<noteq> 0" by auto
    hence m: "unat (ps - 1) = unat ps - 1" by (rule unat_minus_one)
    have "unat (ps - 1) - unat q < unat ps - unat q" using lt m by simp
    moreover have "q \<le> ps - 1" using lt m by (simp add: word_le_nat_alt)
    ultimately obtain q' where
      "check_downwards g fl (ps - 1) = Some (Some q')" "q \<le> q'" "q' \<le> ps - 1"
      "\<not> check_sector_signature fl (ucast q')"
      using less.hyps by blast
    moreover have "ps - 1 \<le> ps" using m by (simp add: word_le_nat_alt)
    ultimately show ?thesis using True lo
      by (subst check_downwards.simps) auto
  qed
qed

lemma random_in_range:
  fixes lo up rnd :: u32
  assumes "lo < up"
  shows "unat (rnd mod (up - lo) + lo) = unat rnd mod (unat up - unat lo) + unat lo"
    and "unat lo \<le> unat (rnd mod (up - lo) + lo)"
    and "unat (rnd mod (up - lo) + lo) < unat up"
proof -
  have l: "unat lo < unat up" using assms by (simp add: word_less_nat_alt)
  have d: "unat (up - lo) = unat up - unat lo" using assms by (intro unat_sub) simp
  have m: "unat (rnd mod (up - lo)) = unat rnd mod (unat up - unat lo)"
    by (simp add: unat_mod d)
  have t: "unat rnd mod (unat up - unat lo) < unat up - unat lo" using l by simp
  have b: "unat (rnd mod (up - lo)) + unat lo < unat up" using t l unfolding m by linarith
  moreover have "unat up < 4294967296" using unsigned_less[of up, where 'a=nat] by simp
  ultimately have "unat (rnd mod (up - lo)) + unat lo < 4294967296" by simp
  from unat_add32[OF this] show e: "unat (rnd mod (up - lo) + lo) = unat rnd mod (unat up - unat lo) + unat lo"
    by (simp add: m)
  show "unat lo \<le> unat (rnd mod (up - lo) + lo)" by (simp add: e)
  show "unat (rnd mod (up - lo) + lo) < unat up" using b by (simp add: e m)
qed

lemma allocator_in_range:
  assumes up: "unat (upper_bound g) \<le> 65535"
      and s: "lower_bound g \<le> s" "s < upper_bound g" "\<not> check_sector_signature fl s"
  shows "\<exists>a. get_random_physical_sector g fl rnd = Some (Allocated a)
             \<and> lower_bound g \<le> ucast a \<and> (ucast a :: u32) < upper_bound g
             \<and> \<not> check_sector_signature fl (ucast a)"
proof -
  have lu: "lower_bound g < upper_bound g" using s by simp
  hence nz: "upper_bound g - lower_bound g \<noteq> 0" by simp
  define x where "x = rnd mod (upper_bound g - lower_bound g) + lower_bound g"
  define R where "R = (ucast x :: u16)"
  note rr = random_in_range[OF lu, of rnd, folded x_def]
  have xs: "unat x < 65536" using rr(3) up by simp
  have R: "unat R = unat x" unfolding R_def using xs by (rule unat_ucast_down)
  have s16: "unat (ucast s :: u16) = unat s"
    using s(2) up by (intro unat_ucast_down) (simp add: word_less_nat_alt)
  have cs: "(ucast (ucast s :: u16) :: u32) = s"
    by (simp add: word_unat_eq_iff s16)
  from check_upwards_bounded[OF up, of fl R] obtain res where
    res: "check_upwards g fl R = Some res"
         "(case res of
              Some q \<Rightarrow> R \<le> q \<and> (ucast q :: u32) < upper_bound g
                          \<and> \<not> check_sector_signature fl (ucast q)
            | None \<Rightarrow> \<forall>q. R \<le> q \<and> (ucast q :: u32) < upper_bound g
                          \<longrightarrow> check_sector_signature fl (ucast q))"
    by blast
  show ?thesis
  proof (cases res)
    case (Some q)
    hence "lower_bound g \<le> ucast q" using res(2) rr(2) R
      by (simp add: ucast16_le word_le_nat_alt)
    thus ?thesis using Some res nz
      by (simp add: get_random_physical_sector_def x_def[symmetric] R_def[symmetric])
  next
    case None
    hence "\<not> R \<le> ucast s" using res(2) s cs by auto
    hence lt: "unat s < unat R" by (simp add: word_le_nat_alt s16)
    hence "R \<noteq> 0" by auto
    hence m: "unat (R - 1) = unat R - 1" by (rule unat_minus_one)
    have a1: "lower_bound g \<le> ucast (ucast s :: u16)" using s(1) by (simp add: cs)
    have a2: "(ucast s :: u16) \<le> R - 1" using lt m by (simp add: word_le_nat_alt s16)
    have a3: "\<not> check_sector_signature fl (ucast (ucast s :: u16))" using s(3) by (simp add: cs)
    from check_downwards_finds[OF a1 a2 a3] obtain q' where
      q': "check_downwards g fl (R - 1) = Some (Some q')" "ucast s \<le> q'" "q' \<le> R - 1"
          "\<not> check_sector_signature fl (ucast q')" by blast
    have "lower_bound g \<le> ucast q'"
      using q'(2) s(1) by (simp add: ucast16_le word_le_nat_alt s16)
    moreover have "(ucast q' :: u32) < upper_bound g"
      using q'(3) m R rr(3) lt by (simp add: ucast16_less word_le_nat_alt)
    ultimately show ?thesis using None res(1) q' nz
      by (simp add: get_random_physical_sector_def x_def[symmetric] R_def[symmetric])
  qed
qed

section \<open>Writing headers and the validation sweep\<close>

lemma le_word_u16:
  "(le_word [ucast (w::u16), ucast (drop_bit 8 w)] :: u32) = ucast w"
  unfolding le_word_def
  by (rule bit_word_eqI) (auto simp: bit_simps dest: bit_imp_le_length)

lemma FF_and [simp]: "0xFF AND (x::u8) = x"
  using and_FF[of x] by (simp only: and.commute)

lemma fresh_buffer_eq:
  "fresh_buffer l =
     [0x21, 0x20, 0x06, 0x27, ucast (ucast l :: u16), ucast (drop_bit 8 (ucast l :: u16)),
      1, 0, 0, 0, 0, 0] @ replicate 244 0xFF"
  by (simp add: fresh_buffer_def prepare_buffer_to_write_def struct_bytes_def fresh_header_def
        le_bytes_def hw_consts upt_4 upt_2)

lemma length_fresh_buffer: "length (fresh_buffer l) = 256"
  by (simp add: fresh_buffer_eq)

lemma mem_write_sector:
  "mem (write_sector_by_physical_addr fl a buf) x =
     (if x - get_memory_addr_from_physical_sector a < 4096 then
        (if x - get_memory_addr_from_physical_sector a < 256
            \<and> unat (x - get_memory_addr_from_physical_sector a) < length buf
         then buf ! unat (x - get_memory_addr_from_physical_sector a) else 0xFF)
      else mem fl x)"
proof -
  have "x - get_memory_addr_from_physical_sector a < 256 \<Longrightarrow>
        x - get_memory_addr_from_physical_sector a < 4096"
    by (simp add: word_less_nat_alt)
  thus ?thesis
    by (auto simp add: write_sector_by_physical_addr_def Let_def mem_program mem_erase
          FLASH_SECTOR_SIZE_def FLASH_PAGE_SIZE_def)
qed

lemma oplog_write_sector:
  "oplog (write_sector_by_physical_addr fl a buf) =
     oplog fl @ [Erase (get_memory_addr_from_physical_sector a) FLASH_SECTOR_SIZE,
                 Program (get_memory_addr_from_physical_sector a) FLASH_PAGE_SIZE]"
  by (simp add: write_sector_by_physical_addr_def Let_def oplog_program oplog_erase)

lemma sector_span_addr:
  fixes k n :: u32
  assumes "k < 4096" "n \<le> 4096"
  shows "((get_memory_addr_from_physical_sector t + k) - get_memory_addr_from_physical_sector a < n)
           = (get_memory_addr_from_physical_sector t = get_memory_addr_from_physical_sector a
              \<and> k < n)"
  using sector_span[OF assms, of t a]
  by (simp add: get_memory_addr_from_physical_sector_def FLASH_SECTOR_SIZE_def)

lemma mem_write_sector_other:
  assumes "get_memory_addr_from_physical_sector t \<noteq> get_memory_addr_from_physical_sector a"
      and "k < 4096"
  shows "mem (write_sector_by_physical_addr fl a buf) (get_memory_addr_from_physical_sector t + k)
           = mem fl (get_memory_addr_from_physical_sector t + k)"
  using assms sector_span_addr[of k 4096 t a]
  by (simp add: mem_write_sector)

lemma mem_write_sector_same:
  assumes "get_memory_addr_from_physical_sector t = get_memory_addr_from_physical_sector a"
      and "k < 256" "length buf = 256"
  shows "mem (write_sector_by_physical_addr fl a buf) (get_memory_addr_from_physical_sector t + k)
           = buf ! unat k"
proof -
  have "unat k < 256" using assms(2) by (simp add: word_less_nat_alt)
  moreover have "k < 4096" using assms(2) by (simp add: word_less_nat_alt)
  ultimately show ?thesis using assms by (simp add: mem_write_sector)
qed

lemma header_fields_write_other:
  assumes "get_memory_addr_from_physical_sector t \<noteq> get_memory_addr_from_physical_sector a"
  shows "header_fields (write_sector_by_physical_addr fl a buf) t = header_fields fl t"
    and "check_sector_signature (write_sector_by_physical_addr fl a buf) t
           = check_sector_signature fl t"
  using mem_write_sector_other[OF assms, of 0] mem_write_sector_other[OF assms, of 1]
    mem_write_sector_other[OF assms, of 2] mem_write_sector_other[OF assms, of 3]
    mem_write_sector_other[OF assms, of 4] mem_write_sector_other[OF assms, of 5]
    mem_write_sector_other[OF assms, of 6] mem_write_sector_other[OF assms, of 7]
    mem_write_sector_other[OF assms, of 8]
  by (simp_all add: header_fields_def check_sector_signature_def hw_consts attr0 attr1 attr2 attr3)

lemma header_fields_write_fresh:
  assumes "get_memory_addr_from_physical_sector t = get_memory_addr_from_physical_sector a"
  shows "header_fields (write_sector_by_physical_addr fl a (fresh_buffer l)) t
           = (MEMORY_SIGNATURE, ucast (ucast l :: u16), 1, 0)"
    and "check_sector_signature (write_sector_by_physical_addr fl a (fresh_buffer l)) t"
proof -
  note w = mem_write_sector_same[OF assms _ length_fresh_buffer, of _ fl l]
  have b: "mem (write_sector_by_physical_addr fl a (fresh_buffer l))
              (get_memory_addr_from_physical_sector t) = fresh_buffer l ! 0"
    using w[of 0] by simp
  have a0: "get_header_attribute_from_sector
              (write_sector_by_physical_addr fl a (fresh_buffer l)) t 0 = MEMORY_SIGNATURE"
    using w[of 1] w[of 2] w[of 3] b
    by (simp add: attr0 fresh_buffer_eq le_word_def MEMORY_SIGNATURE_def)
  have a1: "get_header_attribute_from_sector
              (write_sector_by_physical_addr fl a (fresh_buffer l)) t 1 = ucast (ucast l :: u16)"
    using w[of 4] w[of 5] by (simp add: attr1 fresh_buffer_eq le_word_u16)
  have a2: "get_header_attribute_from_sector
              (write_sector_by_physical_addr fl a (fresh_buffer l)) t 2 = 1"
    using w[of 6] w[of 7] by (simp add: attr2 fresh_buffer_eq le_word_def)
  have a3: "get_header_attribute_from_sector
              (write_sector_by_physical_addr fl a (fresh_buffer l)) t 3 = 0"
    using w[of 8] by (simp add: attr3 fresh_buffer_eq le_word_def)
  show "header_fields (write_sector_by_physical_addr fl a (fresh_buffer l)) t
           = (MEMORY_SIGNATURE, ucast (ucast l :: u16), 1, 0)"
    by (simp add: header_fields_def hw_consts a0[unfolded MEMORY_SIGNATURE_def] a1 a2 a3)
  show "check_sector_signature (write_sector_by_physical_addr fl a (fresh_buffer l)) t"
    by (simp add: check_sector_signature_def SIGNATURE_POSITION_def a0)
qed

lemma validation_sweep_stride:
  assumes "unat ps + n * unat (group_by g) = unat (upper_bound g)"
      and "n = 0 \<or> group_by g \<noteq> 0"
  shows "validation_sweep g fl cnt ps = Some (sweep_list g (stride_from ps (group_by g) n) fl cnt)"
  using assms
proof (induction n arbitrary: ps fl cnt)
  case 0
  hence "\<not> ps < upper_bound g" by (simp add: word_less_nat_alt)
  thus ?case by (subst validation_sweep.simps) simp
next
  case (Suc n)
  hence nz: "group_by g \<noteq> 0" by simp
  hence "0 < unat (group_by g)" by (simp add: unat_gt_0)
  hence lt: "ps < upper_bound g" using Suc.prems(1) by (simp add: word_less_nat_alt)
  note st = stride_step[OF Suc.prems(1)]
  have IH: "\<And>fl cnt. validation_sweep g fl cnt (ps + ucast (group_by g))
        = Some (sweep_list g (stride_from (ps + ucast (group_by g)) (group_by g) n) fl cnt)"
    using st(2) nz by (intro Suc.IH) simp_all
  show ?case
    by (subst validation_sweep.simps) (simp add: lt IH stride_from_Suc)
qed

lemma validation_sweep_configure:
  "validation_sweep (configure lower c grp) fl cnt lower
     = Some (sweep_list (configure lower c grp) (group_leaders lower c grp) fl cnt)"
proof (cases "grp \<noteq> 0 \<and> unat lower + unat c * unat grp < 2 ^ 32")
  case True
  hence "unat lower + unat c * unat (group_by (configure lower c grp))
           = unat (upper_bound (configure lower c grp))"
    by (simp add: upper_bound_configure_no_wrap)
  from validation_sweep_stride[OF this] True show ?thesis
    by (simp add: group_leaders_def)
next
  case False
  have "\<not> lower < upper_bound (configure lower c grp)"
  proof (cases "grp = 0")
    case True thus ?thesis by (simp add: configure_def)
  next
    case False
    with \<open>\<not> (grp \<noteq> 0 \<and> unat lower + unat c * unat grp < 2 ^ 32)\<close>
    show ?thesis by (intro upper_bound_configure_wrap) simp
  qed
  thus ?thesis using False
    by (subst validation_sweep.simps) (auto simp add: group_leaders_def)
qed

lemma mem_delete_sector:
  "ps + 1 \<noteq> 0 \<Longrightarrow>
   mem (delete_sector fl ps) a =
     (if a - get_memory_addr_from_physical_sector ps < 12 then 0 else mem fl a)"
  by (simp add: delete_sector_unfold mem_program_clean)

lemma header_cong:
  assumes "\<And>k. k < 12 \<Longrightarrow> mem fl1 (get_memory_addr_from_physical_sector t1 + k)
                            = mem fl2 (get_memory_addr_from_physical_sector t2 + k)"
  shows "header_fields fl1 t1 = header_fields fl2 t2"
    and "check_sector_signature fl1 t1 = check_sector_signature fl2 t2"
    and "stale_header c fl1 t1 = stale_header c fl2 t2"
    and "needs_init c fl1 t1 = needs_init c fl2 t2"
proof -
  have a: "get_header_attribute_from_sector fl1 t1 0 = get_header_attribute_from_sector fl2 t2 0"
    using assms[of 0] assms[of 1] assms[of 2] assms[of 3] by (simp add: attr0)
  have b: "get_header_attribute_from_sector fl1 t1 1 = get_header_attribute_from_sector fl2 t2 1"
    using assms[of 4] assms[of 5] by (simp add: attr1)
  have c: "get_header_attribute_from_sector fl1 t1 2 = get_header_attribute_from_sector fl2 t2 2"
    using assms[of 6] assms[of 7] by (simp add: attr2)
  have d: "get_header_attribute_from_sector fl1 t1 3 = get_header_attribute_from_sector fl2 t2 3"
    using assms[of 8] by (simp add: attr3)
  show "header_fields fl1 t1 = header_fields fl2 t2"
    by (simp add: header_fields_def hw_consts a b c d)
  show v: "check_sector_signature fl1 t1 = check_sector_signature fl2 t2"
    by (simp add: check_sector_signature_def hw_consts a)
  show "stale_header c fl1 t1 = stale_header c fl2 t2"
    by (simp add: stale_header_def v hw_consts b)
  show "needs_init c fl1 t1 = needs_init c fl2 t2"
    by (simp add: needs_init_def v hw_consts b)
qed

lemma same_addr_same_header:
  assumes "get_memory_addr_from_physical_sector t1 = get_memory_addr_from_physical_sector t2"
  shows "check_sector_signature fl t1 = check_sector_signature fl t2"
    and "stale_header c fl t1 = stale_header c fl t2"
    and "needs_init c fl t1 = needs_init c fl t2"
    and "header_fields fl t1 = header_fields fl t2"
  by (rule header_cong, simp add: assms)+

lemma delete_sector_other:
  assumes "ps + 1 \<noteq> 0"
      and "get_memory_addr_from_physical_sector t \<noteq> get_memory_addr_from_physical_sector ps"
  shows "check_sector_signature (delete_sector fl ps) t = check_sector_signature fl t"
    and "stale_header c (delete_sector fl ps) t = stale_header c fl t"
    and "needs_init c (delete_sector fl ps) t = needs_init c fl t"
    and "header_fields (delete_sector fl ps) t = header_fields fl t"
proof -
  have "\<And>k. k < 12 \<Longrightarrow> mem (delete_sector fl ps) (get_memory_addr_from_physical_sector t + k)
                            = mem fl (get_memory_addr_from_physical_sector t + k)"
  proof -
    fix k :: u32 assume "k < 12"
    hence "k < 4096" by (simp add: word_less_nat_alt)
    from sector_span_addr[OF this, of 12 t ps] assms(2)
    show "mem (delete_sector fl ps) (get_memory_addr_from_physical_sector t + k)
                            = mem fl (get_memory_addr_from_physical_sector t + k)"
      by (simp add: mem_delete_sector[OF assms(1)])
  qed
  from header_cong[OF this]
  show "check_sector_signature (delete_sector fl ps) t = check_sector_signature fl t"
    and "stale_header c (delete_sector fl ps) t = stale_header c fl t"
    and "needs_init c (delete_sector fl ps) t = needs_init c fl t"
    and "header_fields (delete_sector fl ps) t = header_fields fl t"
    by blast+
qed

lemma delete_sector_same:
  assumes "ps + 1 \<noteq> 0"
      and "get_memory_addr_from_physical_sector t = get_memory_addr_from_physical_sector ps"
  shows "\<not> check_sector_signature (delete_sector fl ps) t"
proof (rule signature_zero_not_valid)
  fix k :: u32 assume "k < 12"
  thus "mem (delete_sector fl ps) (get_memory_addr_from_physical_sector t + k) = 0"
    by (simp add: mem_delete_sector[OF assms(1)] assms(2))
qed

lemma sweep_list_Cons:
  "sweep_list g (ps # pss) fl cnt =
     (if \<not> check_sector_signature fl ps then sweep_list g pss fl (cnt + 1)
      else if stale_header (logical_sectors_count g) fl ps
           then sweep_list g pss (delete_sector fl ps) (cnt + 1)
      else sweep_list g pss fl cnt)"
  by (simp add: check_sector_signature_def stale_header_def hw_consts)

declare sweep_list.simps(2) [simp del]

lemma stale_after_delete:
  assumes "ps + 1 \<noteq> 0"
  shows "stale_header c (delete_sector fl ps) p
           = (stale_header c fl p
              \<and> get_memory_addr_from_physical_sector p \<noteq> get_memory_addr_from_physical_sector ps)"
proof (cases "get_memory_addr_from_physical_sector p = get_memory_addr_from_physical_sector ps")
  case True
  from delete_sector_same[OF assms True] show ?thesis using True
    by (simp add: stale_header_def)
next
  case False
  from delete_sector_other(2)[OF assms False] show ?thesis using False by simp
qed

lemma needs_init_after_delete:
  assumes "ps + 1 \<noteq> 0" "stale_header c fl ps"
  shows "needs_init c (delete_sector fl ps) p = needs_init c fl p"
proof (cases "get_memory_addr_from_physical_sector p = get_memory_addr_from_physical_sector ps")
  case True
  have "needs_init c fl p = needs_init c fl ps" using True by (rule same_addr_same_header)
  moreover have "needs_init c fl ps" using assms(2) by (simp add: needs_init_def stale_header_def)
  moreover have "needs_init c (delete_sector fl ps) p"
    using delete_sector_same[OF assms(1) True] by (simp add: needs_init_def)
  ultimately show ?thesis by simp
next
  case False
  from delete_sector_other(3)[OF assms(1) False] show ?thesis .
qed

lemma sweep_list_mem:
  assumes "\<forall>p\<in>set pss. p + 1 \<noteq> 0"
  shows "mem (fst (sweep_list g pss fl cnt)) a =
           (if \<exists>p\<in>set pss. stale_header (logical_sectors_count g) fl p
                              \<and> a - get_memory_addr_from_physical_sector p < 12
            then 0 else mem fl a)"
  using assms
proof (induction pss arbitrary: fl cnt)
  case Nil
  show ?case by simp
next
  case (Cons ps pss)
  hence nz: "ps + 1 \<noteq> 0" and rest: "\<forall>p\<in>set pss. p + 1 \<noteq> 0" by simp_all
  note IH = Cons.IH[OF rest]
  show ?case
  proof (cases "stale_header (logical_sectors_count g) fl ps")
    case False
    hence "sweep_list g (ps # pss) fl cnt = sweep_list g pss fl (cnt + 1)
           \<or> sweep_list g (ps # pss) fl cnt = sweep_list g pss fl cnt"
      by (simp add: sweep_list_Cons)
    thus ?thesis using False by (auto simp: IH)
  next
    case True
    hence v: "check_sector_signature fl ps" by (simp add: stale_header_def)
    have e: "sweep_list g (ps # pss) fl cnt = sweep_list g pss (delete_sector fl ps) (cnt + 1)"
      using True v by (simp add: sweep_list_Cons)
    have "(\<exists>p\<in>set pss. stale_header (logical_sectors_count g) (delete_sector fl ps) p
                              \<and> a - get_memory_addr_from_physical_sector p < 12)
          \<or> a - get_memory_addr_from_physical_sector ps < 12
          \<longleftrightarrow> (\<exists>p\<in>set (ps # pss). stale_header (logical_sectors_count g) fl p
                              \<and> a - get_memory_addr_from_physical_sector p < 12)"
      using True by (auto simp: stale_after_delete[OF nz])
    thus ?thesis
      by (simp only: e IH mem_delete_sector[OF nz]) auto
  qed
qed

lemma sweep_list_count:
  assumes "\<forall>p\<in>set pss. p + 1 \<noteq> 0"
  shows "snd (sweep_list g pss fl cnt) =
           cnt + of_nat (length (filter (needs_init (logical_sectors_count g) fl) pss))"
  using assms
proof (induction pss arbitrary: fl cnt)
  case Nil
  show ?case by simp
next
  case (Cons ps pss)
  hence nz: "ps + 1 \<noteq> 0" and rest: "\<forall>p\<in>set pss. p + 1 \<noteq> 0" by simp_all
  note IH = Cons.IH[OF rest]
  show ?case
  proof (cases "stale_header (logical_sectors_count g) fl ps")
    case True
    have feq: "filter (needs_init (logical_sectors_count g) (delete_sector fl ps)) pss
            = filter (needs_init (logical_sectors_count g) fl) pss"
      by (rule filter_cong) (simp_all add: needs_init_after_delete[OF nz True])
    have ni: "needs_init (logical_sectors_count g) fl ps"
      using True by (simp add: needs_init_def stale_header_def)
    have e: "sweep_list g (ps # pss) fl cnt = sweep_list g pss (delete_sector fl ps) (cnt + 1)"
      using True by (simp add: sweep_list_Cons stale_header_def)
    show ?thesis by (simp add: e IH feq ni)
  next
    case False
    show ?thesis
    proof (cases "check_sector_signature fl ps")
      case True
      hence ni: "\<not> needs_init (logical_sectors_count g) fl ps"
        using False by (simp add: needs_init_def stale_header_def)
      have e: "sweep_list g (ps # pss) fl cnt = sweep_list g pss fl cnt"
        using True False by (simp add: sweep_list_Cons)
      show ?thesis by (simp add: e IH ni)
    next
      case nv: False
      hence ni: "needs_init (logical_sectors_count g) fl ps" by (simp add: needs_init_def)
      have e: "sweep_list g (ps # pss) fl cnt = sweep_list g pss fl (cnt + 1)"
        using nv by (simp add: sweep_list_Cons)
      show ?thesis by (simp add: e IH ni)
    qed
  qed
qed

lemma sweep_list_no_stale:
  assumes "\<forall>p\<in>set pss. \<not> stale_header (logical_sectors_count g) fl p"
  shows "fst (sweep_list g pss fl cnt) = fl"
  using assms
  by (induction pss arbitrary: cnt) (auto simp add: sweep_list_Cons)

lemma length_group_leaders: "length (group_leaders lower c grp) \<le> unat c"
  by (simp add: group_leaders_def stride_from_def)

lemma group_leaders_not_max:
  assumes "p \<in> set (group_leaders lower c grp)"
  shows "p + 1 \<noteq> 0"
proof -
  from group_leaders_bounds[OF assms] have "p < upper_bound (configure lower c grp)" by simp
  hence "unat (p + 1) = unat p + 1" by (rule unat_succ32)
  thus ?thesis by (auto simp: unat_eq_0[symmetric] simp del: unat_eq_0)
qed

section \<open>The initialisation loop, step by step\<close>

lemma unat_times_4096:
  assumes "unat (s::u32) < 1048576"
  shows "unat (s * 4096) = unat s * 4096"
proof -
  have "unat s * unat (4096::u32) < 2 ^ LENGTH(32)" using assms by simp
  from unat_mult_lem[THEN iffD1, OF this] show ?thesis by simp
qed

lemma addr_inj:
  assumes "unat (s::u32) < 1048576" "unat (t::u32) < 1048576"
      and "get_memory_addr_from_physical_sector s = get_memory_addr_from_physical_sector t"
  shows "s = t"
proof -
  have "unat (s * 4096) = unat (t * 4096)"
    using assms(3) by (simp add: get_memory_addr_from_physical_sector_def FLASH_SECTOR_SIZE_def)
  hence "unat s = unat t" by (simp add: unat_times_4096 assms)
  thus ?thesis by (simp add: word_unat_eq_iff)
qed

lemma ucast_ucast_small:
  assumes "unat (l::u32) < 65536"
  shows "(ucast (ucast l :: u16) :: u32) = l"
  by (simp add: word_unat_eq_iff unat_ucast_down[OF assms])

lemma init_step_found:
  assumes "l < ucast (logical_sectors_count g)"
      and "get_first_sector_from_logical_id g fl (ucast l) = Some (Some s)"
  shows "initialization_loop g rands fl cnt k l = initialization_loop g rands fl cnt k (l + 1)"
  by (subst initialization_loop.simps) (simp add: assms)

lemma init_step_alloc:
  assumes "l < ucast (logical_sectors_count g)"
      and "get_first_sector_from_logical_id g fl (ucast l) = Some None"
      and "get_random_physical_sector g fl (rands k) = Some (Allocated a)"
  shows "initialization_loop g rands fl cnt k l =
           (if cnt - 1 = 0
            then Some (Inr (write_sector_by_physical_addr fl (ucast a) (fresh_buffer l), Suc k))
            else initialization_loop g rands
                   (write_sector_by_physical_addr fl (ucast a) (fresh_buffer l))
                   (cnt - 1) (Suc k) (l + 1))"
  by (subst initialization_loop.simps) (simp add: assms fresh_buffer_def Let_def)

lemma init_loop_end:
  assumes "\<not> l < ucast (logical_sectors_count g)"
  shows "initialization_loop g rands fl cnt k l = Some (Inr (fl, k))"
  by (subst initialization_loop.simps) (simp add: assms)

lemma erased_header:
  "header_fields erased_flash s = (0xFFFFFFFF, 0xFFFF, 0xFFFF, 0xFF)"
  "\<not> check_sector_signature erased_flash s"
  by (simp_all add: header_fields_def check_sector_signature_def hw_consts attr0 attr1 attr2 attr3
        erased_flash_def le_word_def)

lemma cold_boot_prefix_Suc:
  "cold_boot_prefix (Suc n) =
     write_sector_by_physical_addr (cold_boot_prefix n) (100 + of_nat n) (fresh_buffer (of_nat n))"
  by (simp add: cold_boot_prefix_def)

lemma cold_boot_prefix_headers:
  assumes "100 \<le> unat (s::u32)" "unat s < 110"
  shows "n \<le> 10 \<Longrightarrow>
         check_sector_signature (cold_boot_prefix n) s = (unat s < 100 + n)
         \<and> header_fields (cold_boot_prefix n) s =
             (if unat s < 100 + n then (MEMORY_SIGNATURE, s - 100, 1, 0)
              else (0xFFFFFFFF, 0xFFFF, 0xFFFF, 0xFF))"
proof (induction n)
  case 0
  show ?case using assms by (simp add: cold_boot_prefix_def erased_header)
next
  case (Suc n)
  hence n: "n < 10" by simp
  hence un: "unat (100 + of_nat n :: u32) = 100 + n"
    by (simp add: unat_word_ariths unat_of_nat)
  note IH = Suc.IH[OF less_imp_le[OF n]]
  show ?case
  proof (cases "s = 100 + of_nat n")
    case True
    have "unat (of_nat n :: u32) < 65536" using n by (simp add: unat_of_nat)
    hence "(ucast (ucast (of_nat n :: u32) :: u16) :: u32) = of_nat n"
      by (rule ucast_ucast_small)
    thus ?thesis using True un
      by (simp add: cold_boot_prefix_Suc header_fields_write_fresh)
  next
    case False
    hence ne: "unat s \<noteq> 100 + n" using un by (auto simp: word_unat_eq_iff)
    have "get_memory_addr_from_physical_sector s
            \<noteq> get_memory_addr_from_physical_sector (100 + of_nat n)"
      using addr_inj[of s "100 + of_nat n"] False assms n un by auto
    from header_fields_write_other[OF this] IH n ne show ?thesis
      by (simp add: cold_boot_prefix_Suc)
  qed
qed

lemma leaders_100_10: "group_leaders 100 10 1 = [100, 101, 102, 103, 104, 105, 106, 107, 108, 109]"
  by (simp add: group_leaders_def stride_from_def upt_rec)

lemma leaders_100_5: "group_leaders 100 5 1 = [100, 101, 102, 103, 104]"
  by (simp add: group_leaders_def stride_from_def upt_rec)

lemma upper_100_10: "upper_bound (configure 100 10 1) = 110"
  by (simp add: configure_def)

lemma cold_boot_fields:
  assumes "n \<le> 10" "100 \<le> unat (s::u32)" "unat s < 110"
  shows "check_sector_signature (cold_boot_prefix n) s = (unat s < 100 + n)"
    and "unat s < 100 + n \<Longrightarrow>
         get_header_attribute_from_sector (cold_boot_prefix n) s LOGICAL_ID_POSITION = s - 100"
  using cold_boot_prefix_headers[OF assms(2,3) assms(1)]
  by (simp_all add: header_fields_def)

lemma small_of_nat:
  assumes "n < 10"
  shows "unat (of_nat n :: u32) = n" "unat (100 + of_nat n :: u32) = 100 + n"
    "(ucast (ucast (of_nat n :: u32) :: u16) :: u32) = of_nat n"
proof -
  show a: "unat (of_nat n :: u32) = n" using assms by (simp add: unat_of_nat)
  show "unat (100 + of_nat n :: u32) = 100 + n"
    using assms by (simp add: unat_word_ariths unat_of_nat)
  show "(ucast (ucast (of_nat n :: u32) :: u16) :: u32) = of_nat n"
    using a assms by (intro ucast_ucast_small) simp
qed

lemma cold_boot_lookup:
  assumes "n < 10"
  shows "get_first_sector_from_logical_id (configure 100 10 1) (cold_boot_prefix n)
           (ucast (of_nat n :: u32)) = Some None"
proof -
  have "\<not> sector_matches (cold_boot_prefix n) (ucast (of_nat n :: u32)) s"
    if "s \<in> set (group_leaders 100 10 1)" for s
  proof
    assume m: "sector_matches (cold_boot_prefix n) (ucast (of_nat n :: u32)) s"
    from group_leaders_bounds[OF that] have b: "100 \<le> unat s" "unat s < 110"
      by (simp_all add: upper_100_10 word_le_nat_alt word_less_nat_alt)
    note f = cold_boot_fields[OF less_imp_le[OF assms] b]
    from m have v: "unat s < 100 + n" by (simp add: sector_matches_def f(1))
    from m have "s - 100 = of_nat n"
      by (simp add: sector_matches_def f(2)[OF v] small_of_nat(3)[OF assms])
    hence "s = 100 + of_nat n" by (simp add: algebra_simps)
    hence "unat s = 100 + n" by (simp add: small_of_nat(2)[OF assms])
    thus False using v by simp
  qed
  hence "find (sector_matches (cold_boot_prefix n) (ucast (of_nat n :: u32)))
           (group_leaders 100 10 1) = None"
    by (simp add: find_None_iff)
  thus ?thesis by (simp add: get_first_sector_configure)
qed

lemma cold_boot_alloc:
  assumes "n < 10"
  shows "get_random_physical_sector (configure 100 10 1) (cold_boot_prefix n) (ascending n)
           = Some (Allocated (100 + of_nat n))"
proof -
  have m: "(of_nat n :: u32) mod 10 = of_nat n"
    using assms by (simp add: word_unat_eq_iff unat_mod small_of_nat(1))
  have "unat (of_nat n + 100 :: u32) = 100 + n"
    using small_of_nat(2)[OF assms] by (simp add: add.commute)
  moreover from this have "unat (ucast (of_nat n + 100 :: u32) :: u16) = unat (of_nat n + 100 :: u32)"
    using assms by (intro unat_ucast_down) simp
  moreover have "unat (100 + of_nat n :: u16) = 100 + n"
    using assms by (simp add: unat_word_ariths unat_of_nat)
  ultimately have r: "(ucast (of_nat n + 100 :: u32) :: u16) = 100 + of_nat n"
    by (simp add: word_unat_eq_iff)
  have u: "(ucast (100 + of_nat n :: u16) :: u32) = 100 + of_nat n"
    using assms by (simp add: word_unat_eq_iff small_of_nat(2) unat_word_ariths unat_of_nat)
  have nv: "\<not> check_sector_signature (cold_boot_prefix n) (100 + of_nat n)"
    using cold_boot_fields(1)[of n "100 + of_nat n"] assms
    by (simp add: small_of_nat(2))
  have lt: "(100 + of_nat n :: u32) < 110"
    using assms by (simp add: word_less_nat_alt small_of_nat(2))
  have "check_upwards (configure 100 10 1) (cold_boot_prefix n) (100 + of_nat n)
          = Some (Some (100 + of_nat n))"
    by (subst check_upwards.simps) (simp add: u upper_100_10 lt nv)
  thus ?thesis
    by (simp add: get_random_physical_sector_def upper_100_10 ascending_def m r)
qed

lemma cold_boot_run:
  "n < 10 \<Longrightarrow>
   initialization_loop (configure 100 10 1) ascending (cold_boot_prefix n) (10 - of_nat n) n
     (of_nat n) = Some (Inr (cold_boot_prefix 10, 10))"
proof (induction "10 - n" arbitrary: n)
  case 0
  thus ?case by simp
next
  case (Suc d)
  hence n: "n < 10" by simp
  have l: "(of_nat n :: u32) < ucast (logical_sectors_count (configure 100 10 1))"
    using n by (simp add: word_less_nat_alt small_of_nat(1))
  have u: "(ucast (100 + of_nat n :: u16) :: u32) = 100 + of_nat n"
    using n by (simp add: word_unat_eq_iff small_of_nat(2) unat_word_ariths unat_of_nat)
  have c: "(10 - of_nat n :: u16) - 1 = 9 - of_nat n" by simp
  have "((of_nat n :: u16) = 9) = (n = 9)"
    using n by (simp add: word_unat_eq_iff unat_of_nat)
  moreover have "((9 - of_nat n :: u16) = 0) = ((of_nat n :: u16) = 9)" by auto
  ultimately have z: "((9 - of_nat n :: u16) = 0) = (n = 9)" by simp
  note st = init_step_alloc[where rands = ascending and k = n and cnt = "10 - of_nat n",
              OF l cold_boot_lookup[OF n] cold_boot_alloc[OF n],
              unfolded u c z, folded cold_boot_prefix_Suc]
  show ?case
  proof (cases "n = 9")
    case True
    thus ?thesis using st by (simp add: eval_nat_numeral)
  next
    case False
    hence "Suc n < 10" using n by simp
    moreover have "d = 10 - Suc n" using Suc.hyps(2) by simp
    ultimately have "initialization_loop (configure 100 10 1) ascending (cold_boot_prefix (Suc n))
       (10 - of_nat (Suc n)) (Suc n) (of_nat (Suc n)) = Some (Inr (cold_boot_prefix 10, 10))"
      by (intro Suc.hyps(1)) simp_all
    moreover have "(10 - of_nat (Suc n) :: u16) = 9 - of_nat n" by simp
    moreover have "(of_nat (Suc n) :: u32) = of_nat n + 1" by simp
    ultimately show ?thesis using st False by (simp only: if_False)
  qed
qed

lemma cold_boot_sweep:
  "validation_sweep (configure 100 10 1) erased_flash 0 100 = Some (erased_flash, 10)"
proof -
  have ns: "\<forall>p\<in>set (group_leaders 100 10 1).
              \<not> stale_header (logical_sectors_count (configure 100 10 1)) erased_flash p"
    by (simp add: stale_header_def erased_header)
  have nm: "\<forall>p\<in>set (group_leaders 100 10 1). p + 1 \<noteq> 0"
    using group_leaders_not_max by blast
  have ni: "needs_init c erased_flash p" for c p by (simp add: needs_init_def erased_header)
  have "sweep_list (configure 100 10 1) (group_leaders 100 10 1) erased_flash 0
          = (erased_flash, 10)"
    using sweep_list_no_stale[OF ns, of 0] sweep_list_count[OF nm, of "configure 100 10 1" erased_flash 0]
    by (simp add: prod_eq_iff ni leaders_100_10)
  thus ?thesis by (simp add: validation_sweep_configure)
qed

lemma cold_boot_ascending:
  "init_flash_lib 100 10 1 ascending erased_flash = Some (Inr (cold_boot_prefix 10, 10))"
  using cold_boot_run[of 0]
  by (simp add: init_flash_lib_def init_sectors_def cold_boot_sweep cold_boot_prefix_def)

lemma shrink_sweep:
  "validation_sweep (configure 100 5 1) (cold_boot_prefix 10) 0 100
     = Some (cold_boot_prefix 10, 0)"
proof -
  have ok: "\<not> needs_init 5 (cold_boot_prefix 10) p" if "p \<in> set (group_leaders 100 5 1)" for p
  proof -
    from that have b: "100 \<le> unat p" "unat p < 105" by (auto simp: leaders_100_5)
    hence "unat p < 110" by simp
    note f = cold_boot_fields[OF order_refl b(1) this]
    have "unat (p - 100) = unat p - 100"
      using unat_sub[of 100 p] b by (simp add: word_le_nat_alt)
    hence "p - 100 < 5" using b by (simp add: word_less_nat_alt)
    thus ?thesis using f b by (simp add: needs_init_def)
  qed
  hence ns: "\<forall>p\<in>set (group_leaders 100 5 1).
              \<not> stale_header (logical_sectors_count (configure 100 5 1)) (cold_boot_prefix 10) p"
    by (auto simp: needs_init_def stale_header_def)
  have nm: "\<forall>p\<in>set (group_leaders 100 5 1). p + 1 \<noteq> 0"
    using group_leaders_not_max by blast
  have "filter (needs_init 5 (cold_boot_prefix 10)) (group_leaders 100 5 1) = []"
    using ok by (simp add: filter_empty_conv)
  hence "sweep_list (configure 100 5 1) (group_leaders 100 5 1) (cold_boot_prefix 10) 0
          = (cold_boot_prefix 10, 0)"
    using sweep_list_no_stale[OF ns, of 0]
      sweep_list_count[OF nm, of "configure 100 5 1" "cold_boot_prefix 10" 0]
    by (simp add: prod_eq_iff)
  thus ?thesis by (simp add: validation_sweep_configure)
qed

section \<open>The initialisation loop with groups of one sector\<close>

lemma stride_one_set_distinct:
  assumes "unat ps + n = unat (up::u32)"
  shows "set (stride_from ps 1 n) = {s. ps \<le> s \<and> s < up} \<and> distinct (stride_from ps 1 n)"
  using assms
proof (induction n arbitrary: ps)
  case 0
  hence "ps = up" by (simp add: word_unat_eq_iff)
  thus ?case by auto
next
  case (Suc n)
  hence p: "unat ps + Suc n * unat (1::u8) = unat up" by simp
  note st = stride_step[OF p]
  have lt: "ps < up" using Suc.prems by (simp add: word_less_nat_alt)
  have IH: "set (stride_from (ps + 1) 1 n) = {s. ps + 1 \<le> s \<and> s < up}"
           "distinct (stride_from (ps + 1) 1 n)"
    using Suc.IH[of "ps + 1"] st(2) by simp_all
  have sp: "\<And>q. (ps \<le> q) = (q = ps \<or> ps + 1 \<le> q)"
    using lt by (rule word_le_iff_eq_or_succ_le)
  have "\<not> ps + 1 \<le> ps" using st(1) by (simp add: word_le_nat_alt)
  hence "ps \<notin> set (stride_from (ps + 1) 1 n)" by (simp add: IH(1))
  moreover have "{s. ps \<le> s \<and> s < up} = insert ps {s. ps + 1 \<le> s \<and> s < up}"
  proof (rule set_eqI)
    fix q
    show "(q \<in> {s. ps \<le> s \<and> s < up}) = (q \<in> insert ps {s. ps + 1 \<le> s \<and> s < up})"
      using lt sp[of q] by (cases "q = ps") simp_all
  qed
  ultimately show ?case using IH by (simp only: stride_from_Suc set_simps distinct.simps) simp
qed

lemma space_props:
  assumes "unat lower + unat c \<le> 65535"
  shows "unat (upper_bound (configure lower c 1)) = unat lower + unat c"
    and "space lower c = {s. lower \<le> s \<and> s < upper_bound (configure lower c 1)}"
    and "distinct (group_leaders lower c 1)"
    and "length (group_leaders lower c 1) = unat c"
    and "card (space lower c) = unat c"
proof -
  have nw: "unat lower + unat c * unat (1::u8) < 2 ^ 32" using assms by simp
  from upper_bound_configure_no_wrap[OF nw]
  show u: "unat (upper_bound (configure lower c 1)) = unat lower + unat c" by simp
  have gl: "group_leaders lower c 1 = stride_from lower 1 (unat c)"
    using nw by (simp add: group_leaders_def)
  note sd = stride_one_set_distinct[OF u[symmetric]]
  show "space lower c = {s. lower \<le> s \<and> s < upper_bound (configure lower c 1)}"
    using sd by (simp add: space_def gl)
  show d: "distinct (group_leaders lower c 1)" using sd by (simp add: gl)
  show l: "length (group_leaders lower c 1) = unat c" by (simp add: gl stride_from_def)
  show "card (space lower c) = unat c"
    using distinct_card[OF d] l by (simp add: space_def)
qed

lemma space_small:
  assumes "unat lower + unat c \<le> 65535" "s \<in> space lower c"
  shows "unat s < 65535" "lower \<le> s" "s < upper_bound (configure lower c 1)"
proof -
  from assms(2) space_props(2)[OF assms(1)]
  show b: "lower \<le> s" "s < upper_bound (configure lower c 1)" by simp_all
  from b(2) have "unat s < unat (upper_bound (configure lower c 1))"
    by (simp add: word_less_nat_alt)
  thus "unat s < 65535" using space_props(1)[OF assms(1)] assms(1) by simp
qed

lemma space_no_alias:
  assumes "unat lower + unat c \<le> 65535" "s \<in> space lower c" "t \<in> space lower c"
      and "get_memory_addr_from_physical_sector s = get_memory_addr_from_physical_sector t"
  shows "s = t"
proof -
  have "unat s < 1048576" using space_small(1)[OF assms(1,2)] by simp
  moreover have "unat t < 1048576" using space_small(1)[OF assms(1,3)] by simp
  ultimately show ?thesis using assms(4) by (rule addr_inj)
qed

lemma header_fields_eqD:
  assumes "header_fields a s = header_fields b t"
  shows "get_header_attribute_from_sector a s LOGICAL_ID_POSITION
           = get_header_attribute_from_sector b t LOGICAL_ID_POSITION"
    and "get_header_attribute_from_sector a s WRITE_COUNT_POSITION
           = get_header_attribute_from_sector b t WRITE_COUNT_POSITION"
    and "check_sector_signature a s = check_sector_signature b t"
  using assms by (simp_all add: header_fields_def check_sector_signature_def)

lemma alloc_step_facts:
  assumes H: "unat lower + unat c \<le> 65535"
      and A: "A \<in> space lower c" "\<not> check_sector_signature fl A"
      and l: "unat (l::u32) < 65536"
  shows "check_sector_signature (write_sector_by_physical_addr fl A (fresh_buffer l)) A"
    and "header_fields (write_sector_by_physical_addr fl A (fresh_buffer l)) A
           = (MEMORY_SIGNATURE, l, 1, 0)"
    and "\<And>s. s \<in> space lower c \<Longrightarrow> s \<noteq> A \<Longrightarrow>
           header_fields (write_sector_by_physical_addr fl A (fresh_buffer l)) s
             = header_fields fl s
           \<and> check_sector_signature (write_sector_by_physical_addr fl A (fresh_buffer l)) s
             = check_sector_signature fl s"
    and "free_sectors lower c (write_sector_by_physical_addr fl A (fresh_buffer l))
           = free_sectors lower c fl - {A}"
    and "oplog (write_sector_by_physical_addr fl A (fresh_buffer l))
           = oplog fl @ allocation_ops [A]"
proof -
  let ?fl1 = "write_sector_by_physical_addr fl A (fresh_buffer l)"
  show v: "check_sector_signature ?fl1 A"
    by (rule header_fields_write_fresh(2)) simp
  show "header_fields ?fl1 A = (MEMORY_SIGNATURE, l, 1, 0)"
    using header_fields_write_fresh(1)[of A A fl l] ucast_ucast_small[OF l] by simp
  show o: "\<And>s. s \<in> space lower c \<Longrightarrow> s \<noteq> A \<Longrightarrow>
           header_fields ?fl1 s = header_fields fl s
           \<and> check_sector_signature ?fl1 s = check_sector_signature fl s"
  proof -
    fix s assume s: "s \<in> space lower c" "s \<noteq> A"
    have "get_memory_addr_from_physical_sector s \<noteq> get_memory_addr_from_physical_sector A"
      using space_no_alias[OF H s(1) A(1)] s(2) by blast
    from header_fields_write_other[OF this]
    show "header_fields ?fl1 s = header_fields fl s
           \<and> check_sector_signature ?fl1 s = check_sector_signature fl s" by simp
  qed
  show "free_sectors lower c ?fl1 = free_sectors lower c fl - {A}"
  proof (rule set_eqI)
    fix s
    show "(s \<in> free_sectors lower c ?fl1) = (s \<in> free_sectors lower c fl - {A})"
    proof (cases "s = A")
      case True thus ?thesis using v by (simp add: free_sectors_def)
    next
      case False
      thus ?thesis using o[of s] by (auto simp add: free_sectors_def)
    qed
  qed
  show "oplog ?fl1 = oplog fl @ allocation_ops [A]"
    by (simp add: oplog_write_sector allocation_ops_def)
qed

lemma pigeonhole_ids:
  assumes H: "unat lower + unat c \<le> 65535"
      and ids: "\<forall>i<unat c. \<exists>s\<in>space lower c. check_sector_signature fl s
                  \<and> get_header_attribute_from_sector fl s LOGICAL_ID_POSITION = of_nat i"
  shows "free_sectors lower c fl = {}"
proof -
  let ?V = "space lower c - free_sectors lower c fl"
  let ?h = "\<lambda>s. unat (get_header_attribute_from_sector fl s LOGICAL_ID_POSITION)"
  have fin: "finite (space lower c)" by (simp add: space_def)
  have sub: "free_sectors lower c fl \<subseteq> space lower c" by (auto simp: free_sectors_def)
  have c: "unat c < 65536" using unsigned_less[of c, where 'a=nat] by simp
  have "{0..<unat c} \<subseteq> ?h ` ?V"
  proof
    fix i assume "i \<in> {0..<unat c}"
    hence i: "i < unat c" by simp
    with ids obtain s where s: "s \<in> space lower c" "check_sector_signature fl s"
      "get_header_attribute_from_sector fl s LOGICAL_ID_POSITION = of_nat i" by blast
    have "unat (of_nat i :: u32) = i" using i c by (simp add: unat_of_nat)
    hence "?h s = i" using s(3) by simp
    moreover have "s \<in> ?V" using s(1,2) by (simp add: free_sectors_def)
    ultimately show "i \<in> ?h ` ?V" by blast
  qed
  hence "card {0..<unat c} \<le> card (?h ` ?V)" using fin by (intro card_mono) simp_all
  also have "\<dots> \<le> card ?V" using fin by (intro card_image_le) simp
  also have "\<dots> = card (space lower c) - card (free_sectors lower c fl)"
    using fin sub by (intro card_Diff_subset) (auto intro: finite_subset)
  finally have "unat c \<le> unat c - card (free_sectors lower c fl)"
    by (simp add: space_props(5)[OF H])
  moreover have "card (free_sectors lower c fl) \<le> unat c"
    using card_mono[OF fin sub] by (simp add: space_props(5)[OF H])
  ultimately have "card (free_sectors lower c fl) = 0 \<or> unat c = 0" by arith
  moreover have "unat c = 0 \<Longrightarrow> card (free_sectors lower c fl) = 0"
    using \<open>card (free_sectors lower c fl) \<le> unat c\<close> by simp
  ultimately have "card (free_sectors lower c fl) = 0" by blast
  thus ?thesis using fin sub by (simp add: finite_subset)
qed

lemma fill_result_weaken:
  assumes "fill_result lower c fl (l + 1) fl' ss" "unat (l + 1) = unat l + 1"
  shows "fill_result lower c fl l fl' ss"
proof -
  have "l \<le> l + 1" using assms(2) by (simp add: word_le_nat_alt)
  hence "\<And>x. l + 1 \<le> x \<Longrightarrow> l \<le> x" by (rule order_trans)
  thus ?thesis using assms(1) unfolding fill_result_def by blast
qed

lemma fill_loop:
  assumes H: "unat lower + unat c \<le> 65535"
  shows "fill_invariant lower c fl cnt l \<Longrightarrow>
         \<exists>fl' ss. initialization_loop (configure lower c 1) rands fl cnt k l
                     = Some (Inr (fl', k + length ss))
                  \<and> fill_result lower c fl l fl' ss"
proof (induction "unat c - unat l" arbitrary: fl cnt k l rule: less_induct)
  case less
  let ?G = "configure lower c 1"
  let ?L = "group_leaders lower c 1"
  let ?lid = "\<lambda>f s. get_header_attribute_from_sector f s LOGICAL_ID_POSITION"
  from less.prems have
    lc: "unat l \<le> unat c" and cz: "cnt \<noteq> 0"
    and cc: "unat cnt = card (free_sectors lower c fl)"
    and I2: "\<forall>s\<in>space lower c. check_sector_signature fl s \<longrightarrow> ?lid fl s < ucast c"
    and I3: "\<forall>i<unat l. \<exists>s\<in>space lower c. check_sector_signature fl s \<and> ?lid fl s = of_nat i"
    unfolding fill_invariant_def by blast+
  have fin: "finite (free_sectors lower c fl)" by (simp add: free_sectors_def space_def)
  have "0 < unat cnt" using cz by (simp add: unat_gt_0)
  hence cpos: "0 < card (free_sectors lower c fl)" using cc by simp
  show ?case
  proof (cases "unat l = unat c")
    case True
    from pigeonhole_ids[OF H] I3 True have "free_sectors lower c fl = {}" by simp
    thus ?thesis using cpos by simp
  next
    case False
    hence ul: "unat l < unat c" using lc by simp
    hence lt: "l < ucast (logical_sectors_count ?G)" by (simp add: word_less_nat_alt)
    have l16: "unat l < 65536" using ul unsigned_less[of c, where 'a=nat] by simp
    have uu: "(ucast (ucast l :: u16) :: u32) = l" using l16 by (rule ucast_ucast_small)
    have sl: "unat (l + 1) = unat l + 1" using lt by (rule unat_succ32)
    have ll: "of_nat (unat l) = l" by simp
    have meas: "unat c - unat (l + 1) < unat c - unat l" using ul sl by simp
    have look: "get_first_sector_from_logical_id ?G fl (ucast l)
                  = Some (find (sector_matches fl (ucast l)) ?L)"
      by (rule get_first_sector_configure)
    show ?thesis
    proof (cases "find (sector_matches fl (ucast l)) ?L")
      case (Some s)
      hence s: "s \<in> space lower c" "check_sector_signature fl s" "?lid fl s = l"
        by (auto simp: find_Some_iff space_def sector_matches_def uu)
      have I3': "\<forall>i<unat (l + 1). \<exists>s\<in>space lower c. check_sector_signature fl s
                    \<and> ?lid fl s = of_nat i"
      proof (intro allI impI)
        fix i assume "i < unat (l + 1)"
        hence "i < unat l \<or> i = unat l" using sl by auto
        thus "\<exists>s\<in>space lower c. check_sector_signature fl s \<and> ?lid fl s = of_nat i"
          using I3 s ll by auto
      qed
      have inv: "fill_invariant lower c fl cnt (l + 1)"
        unfolding fill_invariant_def using ul sl cz cc I2 I3' by simp
      from less.hyps[OF meas inv, of k] obtain fl' ss where
        r: "initialization_loop ?G rands fl cnt k (l + 1) = Some (Inr (fl', k + length ss))"
           "fill_result lower c fl (l + 1) fl' ss" by blast
      have "initialization_loop ?G rands fl cnt k l = Some (Inr (fl', k + length ss))"
        using init_step_found[OF lt, of fl s rands cnt k] look Some r(1) by simp
      thus ?thesis using fill_result_weaken[OF r(2) sl] by blast
    next
      case None
      hence nf: "get_first_sector_from_logical_id ?G fl (ucast l) = Some None"
        using look by simp
      have nm: "\<forall>s\<in>space lower c. \<not> (check_sector_signature fl s \<and> ?lid fl s = l)"
        using None by (auto simp: find_None_iff space_def sector_matches_def uu)
      from cpos obtain s0 where s0: "s0 \<in> free_sectors lower c fl"
        by (auto simp: card_gt_0_iff)
      hence s0s: "s0 \<in> space lower c" "\<not> check_sector_signature fl s0"
        by (simp_all add: free_sectors_def)
      have ub: "unat (upper_bound ?G) \<le> 65535" using space_props(1)[OF H] H by simp
      note b0 = space_small(2,3)[OF H s0s(1)]
      have "lower_bound ?G \<le> s0" using b0(1) by simp
      from allocator_in_range[OF ub this b0(2) s0s(2), of "rands k"] obtain a where
        a: "get_random_physical_sector ?G fl (rands k) = Some (Allocated a)"
           "lower_bound ?G \<le> ucast a" "(ucast a :: u32) < upper_bound ?G"
           "\<not> check_sector_signature fl (ucast a)" by blast
      define A where "A = (ucast a :: u32)"
      define fl1 where "fl1 = write_sector_by_physical_addr fl A (fresh_buffer l)"
      have As: "A \<in> space lower c" using a(2,3) by (simp add: space_props(2)[OF H] A_def)
      have Af: "\<not> check_sector_signature fl A" using a(4) by (simp add: A_def)
      note sf = alloc_step_facts[OF H As Af l16, folded fl1_def]
      have Afree: "A \<in> free_sectors lower c fl" using As Af by (simp add: free_sectors_def)
      have step: "initialization_loop ?G rands fl cnt k l =
           (if cnt - 1 = 0 then Some (Inr (fl1, Suc k))
            else initialization_loop ?G rands fl1 (cnt - 1) (Suc k) (l + 1))"
        using init_step_alloc[where rands = rands and k = k, OF lt nf a(1), of cnt]
        by (simp add: fl1_def A_def)
      have c1: "unat (cnt - 1) = unat cnt - 1" using cz by (rule unat_minus_one)
      have card1: "card (free_sectors lower c fl1) = card (free_sectors lower c fl) - 1"
        using Afree fin by (simp add: sf(4))
      have lidA: "?lid fl1 A = l" "get_header_attribute_from_sector fl1 A WRITE_COUNT_POSITION = 1"
        using sf(2) by (simp_all add: header_fields_def)
      have other: "\<And>s. s \<in> space lower c \<Longrightarrow> check_sector_signature fl s \<Longrightarrow>
                     header_fields fl1 s = header_fields fl s \<and> check_sector_signature fl1 s"
      proof -
        fix s assume s: "s \<in> space lower c" "check_sector_signature fl s"
        hence "s \<noteq> A" using Af by auto
        from sf(3)[OF s(1) this] s(2)
        show "header_fields fl1 s = header_fields fl s \<and> check_sector_signature fl1 s" by simp
      qed
      have I2': "\<forall>s\<in>space lower c. check_sector_signature fl1 s \<longrightarrow> ?lid fl1 s < ucast c"
      proof (intro ballI impI)
        fix s assume s: "s \<in> space lower c" "check_sector_signature fl1 s"
        show "?lid fl1 s < ucast c"
        proof (cases "s = A")
          case True
          thus ?thesis using lidA(1) lt by simp
        next
          case False
          from sf(3)[OF s(1) False] s(2) have "check_sector_signature fl s"
            "header_fields fl1 s = header_fields fl s" by simp_all
          thus ?thesis using I2 s(1) header_fields_eqD(1)[of fl1 s fl s] by auto
        qed
      qed
      show ?thesis
      proof (cases "cnt - 1 = 0")
        case True
        hence "card (free_sectors lower c fl) = 1" using c1 cc cpos by simp
        then obtain x where "free_sectors lower c fl = {x}" by (rule card_1_singletonE)
        hence fs: "free_sectors lower c fl = {A}" using Afree by simp
        have allv: "\<forall>s\<in>space lower c. check_sector_signature fl1 s \<and> ?lid fl1 s < ucast c"
        proof
          fix s assume s: "s \<in> space lower c"
          have "check_sector_signature fl1 s"
          proof (cases "s = A")
            case True thus ?thesis using sf(1) by simp
          next
            case False
            hence "check_sector_signature fl s" using fs s by (auto simp: free_sectors_def)
            thus ?thesis using other[OF s] by simp
          qed
          thus "check_sector_signature fl1 s \<and> ?lid fl1 s < ucast c" using I2' s by simp
        qed
        have "fill_result lower c fl l fl1 [A]"
          unfolding fill_result_def
          using fs sf(5) allv other lidA by simp
        moreover have "initialization_loop ?G rands fl cnt k l = Some (Inr (fl1, k + length [A]))"
          using step True by simp
        ultimately show ?thesis by blast
      next
        case False
        have I3': "\<forall>i<unat (l + 1). \<exists>s\<in>space lower c. check_sector_signature fl1 s
                      \<and> ?lid fl1 s = of_nat i"
        proof (intro allI impI)
          fix i assume "i < unat (l + 1)"
          hence "i < unat l \<or> i = unat l" using sl by auto
          thus "\<exists>s\<in>space lower c. check_sector_signature fl1 s \<and> ?lid fl1 s = of_nat i"
          proof
            assume "i < unat l"
            with I3 obtain s where s: "s \<in> space lower c" "check_sector_signature fl s"
              "?lid fl s = of_nat i" by blast
            from other[OF s(1,2)] header_fields_eqD(1)[of fl1 s fl s] s show ?thesis by auto
          next
            assume "i = unat l"
            thus ?thesis using As sf(1) lidA(1) ll by auto
          qed
        qed
        have inv: "fill_invariant lower c fl1 (cnt - 1) (l + 1)"
          unfolding fill_invariant_def using ul sl False c1 cc card1 I2' I3' by simp
        from less.hyps[OF meas inv, of "Suc k"] obtain fl' ss where
          r: "initialization_loop ?G rands fl1 (cnt - 1) (Suc k) (l + 1)
                = Some (Inr (fl', Suc k + length ss))"
             "fill_result lower c fl1 (l + 1) fl' ss" by blast
        from r(2) have
          R1: "distinct ss" and R2: "set ss = free_sectors lower c fl1"
          and R3: "oplog fl' = oplog fl1 @ allocation_ops ss"
          and R4: "\<forall>s\<in>space lower c. check_sector_signature fl' s \<and> ?lid fl' s < ucast c"
          and R5: "\<forall>s\<in>space lower c. check_sector_signature fl1 s \<longrightarrow>
                     header_fields fl' s = header_fields fl1 s"
          and R6: "\<forall>s\<in>set ss. get_header_attribute_from_sector fl' s WRITE_COUNT_POSITION = 1
                     \<and> l + 1 \<le> ?lid fl' s"
          and R7: "distinct (map (?lid fl') ss)"
          unfolding fill_result_def by blast+
        have hA: "header_fields fl' A = header_fields fl1 A" using R5 As sf(1) by simp
        have lidA': "?lid fl' A = l"
          "get_header_attribute_from_sector fl' A WRITE_COUNT_POSITION = 1"
          using header_fields_eqD(1,2)[OF hA] lidA by simp_all
        have le1: "l \<le> l + 1" using sl by (simp add: word_le_nat_alt)
        have ne1: "\<And>x. l + 1 \<le> x \<Longrightarrow> x \<noteq> l"
          using sl by (auto simp: word_le_nat_alt)
        have Q1: "distinct (A # ss)" using R1 R2 by (simp add: sf(4))
        have Q2: "set (A # ss) = free_sectors lower c fl" using R2 Afree by (auto simp: sf(4))
        have Q3: "oplog fl' = oplog fl @ allocation_ops (A # ss)"
          using R3 sf(5) by (simp add: allocation_ops_def)
        have Q5: "\<forall>s\<in>space lower c. check_sector_signature fl s \<longrightarrow>
                     header_fields fl' s = header_fields fl s"
          using other R5 by simp
        have Q6: "\<forall>s\<in>set (A # ss). get_header_attribute_from_sector fl' s WRITE_COUNT_POSITION = 1
                     \<and> l \<le> ?lid fl' s"
          using R6 lidA' le1 by (auto intro: order_trans)
        have "l \<notin> (?lid fl') ` set ss" using R6 ne1 by auto
        hence Q7: "distinct (map (?lid fl') (A # ss))" using R7 lidA'(1) by simp
        have "fill_result lower c fl l fl' (A # ss)"
          unfolding fill_result_def using Q1 Q2 Q3 R4 Q5 Q6 Q7 by blast
        moreover have "initialization_loop ?G rands fl cnt k l
                         = Some (Inr (fl', k + length (A # ss)))"
          using step False r(1) by simp
        ultimately show ?thesis by blast
      qed
    qed
  qed
qed

section \<open>The two phases of the initialisation together\<close>

text \<open>
  With groups of one sector and an address space below sector 65535, the validation
  sweep ends and establishes the invariant of the initialisation loop; when nothing in
  the address space is stale it leaves the flash as it is.
\<close>

lemma sweep_post:
  assumes H: "unat lower + unat c \<le> 65535"
  shows "\<exists>fl1 cnt. validation_sweep (configure lower c 1) fl 0 lower = Some (fl1, cnt)
           \<and> unat cnt = card (free_sectors lower c fl1)
           \<and> (\<forall>s\<in>space lower c. check_sector_signature fl1 s \<longrightarrow>
                 get_header_attribute_from_sector fl1 s LOGICAL_ID_POSITION < ucast c)
           \<and> ((\<forall>s\<in>space lower c. \<not> stale_header c fl s) \<longrightarrow> fl1 = fl)"
proof -
  define L where "L = group_leaders lower c 1"
  define G where "G = configure lower c 1"
  define r where "r = sweep_list G L fl 0"
  have S: "space lower c = set L" by (simp add: space_def L_def)
  have nm: "\<forall>p\<in>set L. p + 1 \<noteq> 0" unfolding L_def using group_leaders_not_max by blast
  have run: "validation_sweep G fl 0 lower = Some (fst r, snd r)"
    by (simp add: r_def G_def L_def validation_sweep_configure)
  have c: "logical_sectors_count G = c" by (simp add: G_def)
  note m = sweep_list_mem[OF nm, of G fl 0, folded r_def, unfolded c]
  have dist: "distinct L" unfolding L_def by (rule space_props(3)[OF H])
  have len: "length L = unat c" unfolding L_def by (rule space_props(4)[OF H])
  have "length (filter (needs_init c fl) L) \<le> unat c"
    using length_filter_le[of "needs_init c fl" L] len by simp
  moreover have "unat c < 65536" using unsigned_less[of c, where 'a=nat] by simp
  ultimately have "length (filter (needs_init c fl) L) < 2 ^ LENGTH(16)" by simp
  hence cnt: "unat (snd r) = length (filter (needs_init c fl) L)"
    by (simp add: r_def sweep_list_count[OF nm] c unat_of_nat)
  have hit: "(\<exists>q\<in>set L. stale_header c fl q
               \<and> get_memory_addr_from_physical_sector s + k
                   - get_memory_addr_from_physical_sector q < 12)
             = stale_header c fl s"
    if "s \<in> set L" "k < 12" for s k
  proof
    assume "\<exists>q\<in>set L. stale_header c fl q
               \<and> get_memory_addr_from_physical_sector s + k
                   - get_memory_addr_from_physical_sector q < 12"
    then obtain q where q: "stale_header c fl q"
      "get_memory_addr_from_physical_sector s + k - get_memory_addr_from_physical_sector q < 12"
      by blast
    have "k < 4096" using that(2) by (simp add: word_less_nat_alt)
    from q(2) sector_span_addr[OF this, of 12 s q]
    have "get_memory_addr_from_physical_sector s = get_memory_addr_from_physical_sector q"
      by simp
    from same_addr_same_header(2)[OF this, of c fl] q(1) show "stale_header c fl s" by simp
  next
    assume "stale_header c fl s"
    thus "\<exists>q\<in>set L. stale_header c fl q
               \<and> get_memory_addr_from_physical_sector s + k
                   - get_memory_addr_from_physical_sector q < 12"
      using that by (intro bexI[of _ s]) simp_all
  qed
  have stale: "\<not> check_sector_signature (fst r) s" if "s \<in> set L" "stale_header c fl s" for s
  proof (rule signature_zero_not_valid)
    fix k :: u32 assume "k < 12"
    from hit[OF that(1) this] that(2)
    show "mem (fst r) (get_memory_addr_from_physical_sector s + k) = 0" by (simp only: m if_True)
  qed
  have keep: "header_fields (fst r) s = header_fields fl s
              \<and> check_sector_signature (fst r) s = check_sector_signature fl s"
    if "s \<in> set L" "\<not> stale_header c fl s" for s
  proof -
    have "\<And>k. k < 12 \<Longrightarrow> mem (fst r) (get_memory_addr_from_physical_sector s + k)
                            = mem fl (get_memory_addr_from_physical_sector s + k)"
      using hit[OF that(1)] that(2) by (simp only: m if_False)
    from header_cong(1,2)[OF this] show ?thesis by blast
  qed
  have free: "(\<not> check_sector_signature (fst r) s) = needs_init c fl s" if "s \<in> set L" for s
  proof (cases "stale_header c fl s")
    case True
    thus ?thesis using stale[OF that] by (simp add: needs_init_def stale_header_def)
  next
    case False
    thus ?thesis using keep[OF that] by (auto simp add: needs_init_def stale_header_def)
  qed
  have "free_sectors lower c (fst r) = {x. needs_init c fl x} \<inter> set L"
    using free by (auto simp: free_sectors_def S)
  hence card: "card (free_sectors lower c (fst r)) = length (filter (needs_init c fl) L)"
    using distinct_length_filter[OF dist, of "needs_init c fl"] by simp
  have I2: "get_header_attribute_from_sector (fst r) s LOGICAL_ID_POSITION < ucast c"
    if "s \<in> set L" "check_sector_signature (fst r) s" for s
  proof -
    have ns: "\<not> stale_header c fl s" using stale[OF that(1)] that(2) by blast
    from keep[OF that(1) ns] that(2) have "check_sector_signature fl s"
      "header_fields (fst r) s = header_fields fl s" by simp_all
    thus ?thesis using ns header_fields_eqD(1)[of "fst r" s fl s]
      by (simp add: stale_header_def not_le)
  qed
  have same: "fst r = fl" if "\<forall>s\<in>space lower c. \<not> stale_header c fl s"
    using that sweep_list_no_stale[of L G fl 0] by (simp add: S c r_def)
  show ?thesis
  proof (intro exI[of _ "fst r"] exI[of _ "snd r"] conjI ballI impI)
    show "validation_sweep (configure lower c 1) fl 0 lower = Some (fst r, snd r)"
      using run by (simp add: G_def)
    show "unat (snd r) = card (free_sectors lower c (fst r))" using cnt card by simp
  next
    fix s assume "s \<in> space lower c" "check_sector_signature (fst r) s"
    thus "get_header_attribute_from_sector (fst r) s LOGICAL_ID_POSITION < ucast c"
      using I2 by (simp add: S)
  next
    assume "\<forall>s\<in>space lower c. \<not> stale_header c fl s"
    thus "fst r = fl" by (rule same)
  qed
qed

lemma init_post:
  assumes H: "unat lower + unat c \<le> 65535"
  shows "\<exists>fl1 k1. init_flash_lib lower c 1 rands fl = Some (Inr (fl1, k1))
           \<and> (\<forall>s\<in>space lower c. check_sector_signature fl1 s
                 \<and> get_header_attribute_from_sector fl1 s LOGICAL_ID_POSITION < ucast c)"
proof -
  from sweep_post[OF H, of fl] obtain fl0 cnt where
    sw: "validation_sweep (configure lower c 1) fl 0 lower = Some (fl0, cnt)"
        "unat cnt = card (free_sectors lower c fl0)"
        "\<forall>s\<in>space lower c. check_sector_signature fl0 s \<longrightarrow>
                 get_header_attribute_from_sector fl0 s LOGICAL_ID_POSITION < ucast c"
    by blast
  show ?thesis
  proof (cases "cnt = 0")
    case True
    have "finite (free_sectors lower c fl0)" by (simp add: free_sectors_def space_def)
    hence "free_sectors lower c fl0 = {}" using sw(2) True by simp
    hence "\<forall>s\<in>space lower c. check_sector_signature fl0 s" by (auto simp: free_sectors_def)
    moreover have "init_flash_lib lower c 1 rands fl = Some (Inr (fl0, 0))"
      using sw(1) True by (simp add: init_flash_lib_def init_sectors_def)
    ultimately show ?thesis using sw(3) by blast
  next
    case False
    have inv: "fill_invariant lower c fl0 cnt 0"
      unfolding fill_invariant_def using False sw(2,3) by simp
    from fill_loop[OF H inv, of rands 0] obtain fl' ss where
      r: "initialization_loop (configure lower c 1) rands fl0 cnt 0 0
            = Some (Inr (fl', 0 + length ss))"
         "fill_result lower c fl0 0 fl' ss" by blast
    have "init_flash_lib lower c 1 rands fl = Some (Inr (fl', length ss))"
      using sw(1) False r(1) by (simp add: init_flash_lib_def init_sectors_def)
    moreover have "\<forall>s\<in>space lower c. check_sector_signature fl' s
                 \<and> get_header_attribute_from_sector fl' s LOGICAL_ID_POSITION < ucast c"
      using r(2) unfolding fill_result_def by blast
    ultimately show ?thesis by blast
  qed
qed

lemma init_idle:
  assumes H: "unat lower + unat c \<le> 65535"
      and ok: "\<forall>s\<in>space lower c. check_sector_signature fl s
                 \<and> get_header_attribute_from_sector fl s LOGICAL_ID_POSITION < ucast c"
  shows "init_flash_lib lower c 1 rands fl = Some (Inr (fl, 0))"
proof -
  have ns: "\<forall>s\<in>space lower c. \<not> stale_header c fl s"
    using ok by (auto simp: stale_header_def not_le)
  from sweep_post[OF H, of fl] ns obtain cnt where
    sw: "validation_sweep (configure lower c 1) fl 0 lower = Some (fl, cnt)"
        "unat cnt = card (free_sectors lower c fl)"
    by blast
  have "free_sectors lower c fl = {}" using ok by (auto simp: free_sectors_def)
  hence "cnt = 0" using sw(2) by (simp add: unat_eq_0)
  thus ?thesis using sw(1) by (simp add: init_flash_lib_def init_sectors_def)
qed

text \<open>
  Under the same conditions a run of \<open>init_flash_lib\<close> on the flash a first run has left
  finds every sector of the address space valid, allocates nothing and leaves the flash,
  its operation log included, as it is.
\<close>

lemma second_run_idle:
  assumes "unat lower + unat c \<le> 65535"
  shows "\<exists>fl1 k1. init_flash_lib lower c 1 rands fl = Some (Inr (fl1, k1))
           \<and> init_flash_lib lower c 1 rands' fl1 = Some (Inr (fl1, 0))"
proof -
  from init_post[OF assms, of rands fl] obtain fl1 k1 where
    r: "init_flash_lib lower c 1 rands fl = Some (Inr (fl1, k1))"
       "\<forall>s\<in>space lower c. check_sector_signature fl1 s
                 \<and> get_header_attribute_from_sector fl1 s LOGICAL_ID_POSITION < ucast c"
    by blast
  from init_idle[OF assms r(2), of rands'] r(1) show ?thesis by blast
qed

section \<open>Runs of the initialisation, step by step\<close>

lemma write_fresh_simps:
  assumes "unat a < 1048576" "unat s < 1048576"
  shows "check_sector_signature (write_sector_by_physical_addr fl a (fresh_buffer l)) s
           = (s = a \<or> check_sector_signature fl s)"
    and "get_header_attribute_from_sector (write_sector_by_physical_addr fl a (fresh_buffer l)) s
           LOGICAL_ID_POSITION
           = (if s = a then ucast (ucast l :: u16)
              else get_header_attribute_from_sector fl s LOGICAL_ID_POSITION)"
proof -
  have "s = a \<or> get_memory_addr_from_physical_sector s \<noteq> get_memory_addr_from_physical_sector a"
    using addr_inj[OF assms(2,1)] by blast
  thus "check_sector_signature (write_sector_by_physical_addr fl a (fresh_buffer l)) s
           = (s = a \<or> check_sector_signature fl s)"
    using header_fields_write_fresh(2)[of a a fl l] header_fields_write_other(2)[of s a fl]
    by auto
  show "get_header_attribute_from_sector (write_sector_by_physical_addr fl a (fresh_buffer l)) s
           LOGICAL_ID_POSITION
           = (if s = a then ucast (ucast l :: u16)
              else get_header_attribute_from_sector fl s LOGICAL_ID_POSITION)"
  proof (cases "s = a")
    case True
    thus ?thesis using header_fields_write_fresh(1)[of a a fl l] by (simp add: header_fields_def)
  next
    case False
    hence "get_memory_addr_from_physical_sector s \<noteq> get_memory_addr_from_physical_sector a"
      using addr_inj[OF assms(2,1)] by blast
    from header_fields_write_other(1)[OF this, of fl "fresh_buffer l"] False
    show ?thesis by (simp add: header_fields_def)
  qed
qed

lemma check_upwards_hit:
  "(ucast ps :: u32) < upper_bound g \<Longrightarrow> \<not> check_sector_signature fl (ucast ps)
   \<Longrightarrow> check_upwards g fl ps = Some (Some ps)"
  by (subst check_upwards.simps) simp

lemma check_upwards_skip:
  "(ucast ps :: u32) < upper_bound g \<Longrightarrow> check_sector_signature fl (ucast ps)
   \<Longrightarrow> check_upwards g fl ps = check_upwards g fl (ps + 1)"
  by (subst check_upwards.simps) simp

lemma check_upwards_end:
  "\<not> (ucast ps :: u32) < upper_bound g \<Longrightarrow> check_upwards g fl ps = Some None"
  by (subst check_upwards.simps) simp

lemma check_downwards_hit:
  "lower_bound g \<le> (ucast ps :: u32) \<Longrightarrow> \<not> check_sector_signature fl (ucast ps)
   \<Longrightarrow> check_downwards g fl ps = Some (Some ps)"
  by (subst check_downwards.simps) simp

lemma check_downwards_skip:
  "lower_bound g \<le> (ucast ps :: u32) \<Longrightarrow> check_sector_signature fl (ucast ps)
   \<Longrightarrow> check_downwards g fl ps = check_downwards g fl (ps - 1)"
  by (subst check_downwards.simps) simp

lemma leaders_wrapped: "group_leaders 65534 2 1 = [65534, 65535]"
  by (simp add: group_leaders_def stride_from_def upt_rec)

lemma upper_wrapped: "upper_bound (configure 65534 2 1) = 65536"
  by (simp add: configure_def)

lemmas run_simps = write_fresh_simps erased_header(2) sector_matches_def
  get_first_sector_configure validation_sweep_configure sweep_list_Cons sweep_list.simps(1)
  stale_header_def get_random_physical_sector_def
  check_upwards_hit check_upwards_skip check_upwards_end check_downwards_hit check_downwards_skip
  init_flash_lib_def init_sectors_def

lemma wrapped_first_run: "init_flash_lib 65534 2 1 (\<lambda>_. 1) erased_flash = Some (Inr (wrapped_flash, 2))"
  apply (simp add: run_simps leaders_wrapped upper_wrapped)
  apply (subst initialization_loop.simps)
  apply (simp add: run_simps leaders_wrapped upper_wrapped fresh_buffer_def[symmetric])
  apply (subst initialization_loop.simps)
  apply (simp add: run_simps leaders_wrapped upper_wrapped fresh_buffer_def[symmetric])
  apply (simp add: wrapped_flash_def)
  done

lemma wrapped_second_run: "init_flash_lib 65534 2 1 (\<lambda>_. 1) wrapped_flash
        = Some (Inr (write_sector_by_physical_addr wrapped_flash 1 (fresh_buffer 1), 1))"
  apply (simp add: run_simps leaders_wrapped upper_wrapped wrapped_flash_def)
  apply (subst initialization_loop.simps)
  apply (simp add: run_simps leaders_wrapped upper_wrapped fresh_buffer_def[symmetric])
  apply (subst initialization_loop.simps)
  apply (simp add: run_simps leaders_wrapped upper_wrapped fresh_buffer_def[symmetric])
  done

lemma misplaced_first_run:
  "init_flash_lib 100 1 2 (\<lambda>_. 1) erased_flash = Some (Inr (misplaced_flash, 1))"
  by code_simp

lemma misplaced_second_run:
  "init_flash_lib 100 1 2 (\<lambda>_. 1) misplaced_flash
     = Some (Inr (write_sector_by_physical_addr misplaced_flash 100 (fresh_buffer 0), 1))"
  by code_simp

section \<open>Evaluation of the erase and read paths\<close>

lemma written_flash_is_cold_boot:
  "init_flash_lib 100 1 1 (\<lambda>_. 0) erased_flash = Some (Inr (written_flash, 1))"
  by code_simp

text \<open>
  Claim C1 (erase preserves identity) at a failing input. With one logical sector and
  \<open>group_by = 1\<close>, sector 100 holds logical id 0, sub-sector 0, write count 1, so the
  group is fully mapped. \<open>erase_logical_sector 0\<close> saves the bumped header, erases the
  sector and only then resolves the sub-sector again to program the header: the lookup
  now fails, and the header is programmed at a sector computed from the uninitialised
  local (here the stale value 100, advanced by 4096 to sector 4196). Afterwards the
  representative lookup of logical id 0 finds nothing and sector 100 is not valid.
\<close>

theorem erase_logical_sector_loses_representative:
  "get_first_sector_from_logical_id (configure 100 1 1) written_flash 0 = Some (Some 100)
   \<and> get_physical_sector_from_logical_id (configure 100 1 1) written_flash 100 0 0
        = Some (True, 100)
   \<and> get_header_attribute_from_sector written_flash 100 WRITE_COUNT_POSITION = 1
   \<and> (case erase_logical_sector (configure 100 1 1) written_flash (\<lambda>_. 100) 100 0 of
         Some (Inr fl') \<Rightarrow>
           get_first_sector_from_logical_id (configure 100 1 1) fl' 0 = Some None
           \<and> \<not> check_sector_signature fl' 100
           \<and> get_header_attribute_from_sector fl' 100 WRITE_COUNT_POSITION = 0xFFFF
           \<and> oplog fl' = oplog written_flash
                @ [Erase (100 * 4096) 4096, Program (4196 * 4096) 256]
       | _ \<Rightarrow> False)"
  by code_simp

text \<open>
  Claim C2 (physical erase round trip) at a failing input. Sector 100 holds a valid
  header with logical id 0, sub-sector 0 and write count 1. \<open>erase_physical_sector 0 0\<close>
  erases the sector first and reads the header to rewrite from the erased flash, so the
  header it programs is all ones with the write count wrapped to 0: the signature is
  \<open>0xFFFFFFFF\<close> (not valid), the logical id \<open>0xFFFF\<close>, the sub-sector index \<open>0xFF\<close>.
\<close>

theorem erase_physical_sector_loses_header:
  "check_sector_signature written_flash 100
   \<and> get_header_attribute_from_sector written_flash 100 LOGICAL_ID_POSITION = 0
   \<and> get_header_attribute_from_sector written_flash 100 WRITE_COUNT_POSITION = 1
   \<and> get_header_attribute_from_sector written_flash 100 PHYSICAL_ID_POSITION = 0
   \<and> (case erase_physical_sector (configure 100 1 1) written_flash 0 0 0 of
         Some (Inr fl') \<Rightarrow>
           \<not> check_sector_signature fl' 100
           \<and> get_header_attribute_from_sector fl' 100 SIGNATURE_POSITION = 0xFFFFFFFF
           \<and> get_header_attribute_from_sector fl' 100 LOGICAL_ID_POSITION = 0xFFFF
           \<and> get_header_attribute_from_sector fl' 100 WRITE_COUNT_POSITION = 0
           \<and> get_header_attribute_from_sector fl' 100 PHYSICAL_ID_POSITION = 0xFF
       | _ \<Rightarrow> False)"
  by code_simp

text \<open>
  Claim C3 (read resolution) at a failing input. Logical sector 0 resolves to physical
  sector 100. For byte offset 1 the claimed address is
  \<open>XIP_BASE + 100 * 4096 + 1 = 0x10064001\<close>; \<open>read_sector\<close> adds the intra-sector offset
  to the sector index before the multiplication and returns
  \<open>XIP_BASE + (100 + 1) * 4096 = 0x10065000\<close>, the start of the next physical sector.
\<close>

theorem read_sector_offset_scaled_by_sector_size:
  "get_physical_sector_from_logical_id (configure 100 1 1) written_flash 0 0 0
     = Some (True, 100)
   \<and> XIP_BASE + 100 * FLASH_SECTOR_SIZE + 1 = 0x10064001
   \<and> read_sector (configure 100 1 1) written_flash 0 0 1 = Some 0x10065000"
  by code_simp

text \<open>
  Claim C4 (sub-sector walk) at a failing input. With \<open>group_by = 2\<close> the group of
  logical id 0 is sectors 100 (sub-sector 0) and 101 (sub-sector 1). Looking up
  sub-sector 1, the walk leaves sector 100 by \<open>FLASH_SECTOR_SIZE = 4096\<close> sector indices
  per step instead of one: it reads sectors 100 and 4196, never sector 101, and stores
  sector 8292, which it has not read, while reporting success.
\<close>

theorem sub_sector_walk_steps_by_sector_size:
  "get_first_sector_from_logical_id (configure 100 1 2) group_flash 0 = Some (Some 100)
   \<and> get_header_attribute_from_sector group_flash 100 PHYSICAL_ID_POSITION = 0
   \<and> check_sector_signature group_flash 101
   \<and> get_header_attribute_from_sector group_flash 101 LOGICAL_ID_POSITION = 0
   \<and> get_header_attribute_from_sector group_flash 101 PHYSICAL_ID_POSITION = 1
   \<and> get_physical_sector_from_logical_id (configure 100 1 2) group_flash 0 0 1
        = Some (True, 8292)
   \<and> (8292 :: u32) = 100 + 2 * FLASH_SECTOR_SIZE"
  by code_simp

section \<open>Deleting sectors (claim C9)\<close>

text \<open>
  Claim C9, as the code has it. For every sector index below \<open>0xFFFFFFFF\<close>,
  \<open>delete_sector\<close> issues one program call on the header page of that sector and no
  erase; the first \<open>sizeof(SectorHeader) = 12\<close> bytes of the page (signature, logical id,
  write count, sub-sector index and padding) become zero, every other byte of the flash
  keeps its value, and the sector is no longer valid. \<open>delete_sectors\<close> does this for
  every sector of \<open>[b, e)\<close>.
\<close>

theorem delete_sectors_zeroes_whole_header:
  "(ps + 1 \<noteq> 0 \<longrightarrow>
      oplog (delete_sector fl ps)
        = oplog fl @ [Program (get_memory_addr_from_physical_sector ps) FLASH_PAGE_SIZE]
      \<and> (\<forall>a. mem (delete_sector fl ps) a =
             (if a - get_memory_addr_from_physical_sector ps < of_nat sizeof_SectorHeader
              then 0 else mem fl a))
      \<and> \<not> check_sector_signature (delete_sector fl ps) ps)
   \<and> (\<forall>a. mem (delete_sectors fl b e) a =
          (if \<exists>q. b \<le> q \<and> q < e
                \<and> a - get_memory_addr_from_physical_sector q < of_nat sizeof_SectorHeader
           then 0 else mem fl a))
   \<and> (\<forall>q. b \<le> q \<and> q < e \<longrightarrow> \<not> check_sector_signature (delete_sectors fl b e) q)"
proof (intro conjI impI allI)
  assume nz: "ps + 1 \<noteq> 0"
  show "oplog (delete_sector fl ps)
        = oplog fl @ [Program (get_memory_addr_from_physical_sector ps) FLASH_PAGE_SIZE]"
    by (simp add: delete_sector_unfold[OF nz] oplog_program)
  show "mem (delete_sector fl ps) a =
             (if a - get_memory_addr_from_physical_sector ps < of_nat sizeof_SectorHeader
              then 0 else mem fl a)" for a
    by (simp add: delete_sector_unfold[OF nz] mem_program_clean sizeof_SectorHeader_def)
  have "ps < ps + 1" using nz by (simp add: word_less_nat_alt unatSuc add.commute)
  thus "\<not> check_sector_signature (delete_sector fl ps) ps"
    unfolding delete_sector_def delete_sectors_def
    by (intro delete_loop_not_valid) simp_all
next
  show "mem (delete_sectors fl b e) a =
          (if \<exists>q. b \<le> q \<and> q < e
                \<and> a - get_memory_addr_from_physical_sector q < of_nat sizeof_SectorHeader
           then 0 else mem fl a)" for a
    by (simp add: delete_sectors_def mem_delete_loop sizeof_SectorHeader_def)
next
  fix q assume "b \<le> q \<and> q < e"
  thus "\<not> check_sector_signature (delete_sectors fl b e) q"
    unfolding delete_sectors_def by (intro delete_loop_not_valid) simp_all
qed

theorem delete_sectors_zeroes_whole_header_witness:
  "(100 :: u32) + 1 \<noteq> 0
   \<and> oplog (delete_sector erased_flash 100) = [Program 409600 256]
   \<and> mem (delete_sector erased_flash 100) 409611 = 0
   \<and> mem (delete_sector erased_flash 100) 409612 = 0xFF
   \<and> \<not> check_sector_signature (delete_sector erased_flash 100) 100
   \<and> (100 :: u32) \<le> 101 \<and> (101 :: u32) < 102
   \<and> \<not> check_sector_signature (delete_sectors erased_flash 100 102) 101"
  using delete_sectors_zeroes_whole_header[of 100 erased_flash 100 102]
  by (simp add: erased_flash_def get_memory_addr_from_physical_sector_def FLASH_SECTOR_SIZE_def
       FLASH_PAGE_SIZE_def sizeof_SectorHeader_def)

text \<open>
  Claim C9 as stated fails: on an erased sector the byte at offset 4 of the header page,
  the first byte after the signature field, is \<open>0xFF\<close> before \<open>delete_sector\<close> and \<open>0x00\<close>
  after it.
\<close>

theorem delete_sector_clears_bytes_after_signature:
  "mem erased_flash (get_memory_addr_from_physical_sector 100 + 4) = 0xFF
   \<and> mem (delete_sector erased_flash 100) (get_memory_addr_from_physical_sector 100 + 4) = 0"
  by code_simp

section \<open>Failed lookups (claim C10)\<close>

text \<open>
  Claim C10. When no sector of the address space carries a valid header with the logical
  id, \<open>get_physical_sector_from_logical_id\<close> returns false and still stores a value to
  \<open>*physical_addr\<close>: the value of its uninitialised local advanced by at most \<open>group_by\<close>
  steps of \<open>FLASH_SECTOR_SIZE\<close>. \<open>read_sector\<close> drops the flag and returns the pointer
  computed from that value; its result carries no failure signal.
\<close>

theorem failed_lookup_stores_uninitialised_value:
  assumes "\<forall>ps. lower \<le> ps \<and> ps < upper_bound (configure lower c grp)
              \<longrightarrow> \<not> sector_matches fl logical_id ps"
  shows "get_physical_sector_from_logical_id (configure lower c grp) fl uninit logical_id psid
           = Some (False, sub_sector_walk (unat grp) fl psid uninit)
         \<and> (\<exists>k\<le>unat grp. sub_sector_walk (unat grp) fl psid uninit
                              = uninit + of_nat k * FLASH_SECTOR_SIZE)
         \<and> read_sector (configure lower c grp) fl uninit logical_id offset_bytes
             = Some (get_memory_addr_from_physical_sector
                       (sub_sector_walk (unat grp) fl (ucast (offset_bytes div FLASH_SECTOR_SIZE))
                          uninit
                        + offset_bytes mod FLASH_SECTOR_SIZE) + XIP_BASE)"
proof -
  have "find (sector_matches fl logical_id) (group_leaders lower c grp) = None"
    using assms group_leaders_bounds by (auto simp: find_None_iff)
  hence nf: "get_first_sector_from_logical_id (configure lower c grp) fl logical_id = Some None"
    by (simp add: get_first_sector_configure)
  have g: "\<And>p. get_physical_sector_from_logical_id (configure lower c grp) fl uninit logical_id p
           = Some (False, sub_sector_walk (unat grp) fl p uninit)"
    by (simp add: get_physical_sector_from_logical_id_def nf)
  show ?thesis
    by (simp add: g read_sector_def sub_sector_walk_offset)
qed

theorem failed_lookup_stores_uninitialised_value_witness:
  "\<not> sector_matches erased_flash 3 100 \<and> \<not> sector_matches erased_flash 3 109
   \<and> get_physical_sector_from_logical_id (configure 100 10 1) erased_flash 7 3 0
           = Some (False, 4103)
   \<and> read_sector (configure 100 10 1) erased_flash 7 3 0 = Some 0x11007000"
proof -
  have h: "\<forall>ps. 100 \<le> ps \<and> ps < upper_bound (configure 100 10 1)
              \<longrightarrow> \<not> sector_matches erased_flash 3 ps"
    by (simp add: sector_matches_def check_sector_signature_def attr0 erased_flash_def
         le_word_def hw_consts)
  have n: "\<not> sector_matches erased_flash 3 p" for p
    by (simp add: sector_matches_def check_sector_signature_def attr0 erased_flash_def
         le_word_def hw_consts)
  have w: "get_header_attribute_from_sector erased_flash 7 3 = 255"
    by (simp add: attr3 erased_flash_def le_word_def)
  show ?thesis
    using n failed_lookup_stores_uninitialised_value[OF h, of 7 0 0]
    by (simp add: w hw_consts get_memory_addr_from_physical_sector_def)
qed

section \<open>The allocator beyond the 16-bit range (claim C7)\<close>

text \<open>
  Claim C7. \<open>_get_random_physical_sector\<close> is documented to return a sector of the address
  space without a valid signature, and the address space is bounded by the 32-bit
  \<open>lower_bound\<close> and \<open>upper_bound\<close>; but it keeps the sector in \<open>uint16_t\<close> variables.
  With the address space \<open>[65536, 65537)\<close>, sector 65536 free and every sector with a
  16-bit index valid, the random sector 65536 is truncated to 0 and the upward loop,
  whose 16-bit counter is always below \<open>upper_bound\<close>, never ends: although a sector of
  the address space is free, the allocator returns nothing, whatever \<open>rand()\<close> gives.
\<close>

theorem allocator_never_returns:
  "lower_bound (configure 65536 1 1) \<le> 65536
   \<and> 65536 < upper_bound (configure 65536 1 1)
   \<and> \<not> check_sector_signature full_low_flash 65536
   \<and> check_sector_signature full_low_flash 0
   \<and> check_sector_signature full_low_flash 65535
   \<and> (\<forall>rnd. get_random_physical_sector (configure 65536 1 1) full_low_flash rnd = None)"
proof -
  have u: "upper_bound (configure 65536 1 1) = 65537" by (simp add: configure_def)
  have a: "\<not> check_sector_signature full_low_flash 65536"
    by (simp add: check_sector_signature_def SIGNATURE_POSITION_def attr0 full_low_flash_def
       get_memory_addr_from_physical_sector_def FLASH_SECTOR_SIZE_def le_word_def
       MEMORY_SIGNATURE_def)
  have lt: "(ucast (p::u16) :: u32) < 65537" for p
  proof -
    have "unat p < 65536" using unsigned_less[of p, where 'a=nat] by simp
    thus ?thesis by (simp add: word_less_nat_alt)
  qed
  have "check_upwards (configure 65536 1 1) full_low_flash ps = None" for ps
    by (rule check_upwards_diverges) (simp_all add: u lt full_low_flash_valid)
  thus ?thesis using a full_low_flash_valid[of 0] full_low_flash_valid[of 65535]
    by (simp add: get_random_physical_sector_def u)
qed

section \<open>The validation sweep (claim C8)\<close>

text \<open>
  Claim C8, as the code has it. The sweep of \<open>init_sectors\<close> visits the group leaders of
  the address space the new configuration defines, \<open>[lower, lower + count * group_by)\<close>.
  It always ends; the counter it returns is the number of leaders that are not valid or
  carry a logical id \<open>\<ge> count\<close>; every leader with a valid signature and a logical id
  \<open>\<ge> count\<close> has all \<open>sizeof(SectorHeader) = 12\<close> bytes of its header zeroed, so that
  it has no valid signature afterwards; a leader with a valid in-range header keeps every
  byte of its sector; and the only bytes the sweep changes are header bytes of such
  stale leaders. So after a cold boot with 10 logical sectors, re-initialising
  with 5 invalidates those of the sectors 100..104 whose logical id is \<open>\<ge> 5\<close>; sectors
  105..109 lie outside the new address space and keep their headers.
\<close>

theorem validation_sweep_invalidates_stale_leaders:
  "\<exists>fl' n. validation_sweep (configure lower c grp) fl 0 lower = Some (fl', n)
     \<and> unat n = length (filter (needs_init c fl) (group_leaders lower c grp))
     \<and> (\<forall>p\<in>set (group_leaders lower c grp).
           (stale_header c fl p \<longrightarrow>
              (\<forall>k<of_nat sizeof_SectorHeader.
                  mem fl' (get_memory_addr_from_physical_sector p + k) = 0)
              \<and> \<not> check_sector_signature fl' p)
         \<and> (\<not> needs_init c fl p \<longrightarrow>
              (\<forall>k<FLASH_SECTOR_SIZE. mem fl' (get_memory_addr_from_physical_sector p + k)
                                      = mem fl (get_memory_addr_from_physical_sector p + k))))
     \<and> (\<forall>a. mem fl' a \<noteq> mem fl a \<longrightarrow>
           (\<exists>p\<in>set (group_leaders lower c grp).
               stale_header c fl p
               \<and> a - get_memory_addr_from_physical_sector p < of_nat sizeof_SectorHeader))"
proof -
  define L where "L = group_leaders lower c grp"
  define G where "G = configure lower c grp"
  define r where "r = sweep_list G L fl 0"
  have nm: "\<forall>p\<in>set L. p + 1 \<noteq> 0" unfolding L_def using group_leaders_not_max by blast
  have run: "validation_sweep G fl 0 lower = Some (fst r, snd r)"
    by (simp add: r_def G_def L_def validation_sweep_configure)
  have c: "logical_sectors_count G = c" by (simp add: G_def)
  note m = sweep_list_mem[OF nm, of G fl 0, folded r_def, unfolded c]
  have "length (filter (needs_init c fl) L) \<le> unat c"
    using length_group_leaders[of lower c grp] length_filter_le[of "needs_init c fl" L]
    unfolding L_def by linarith
  moreover have "unat c < 65536" using unsigned_less[of c, where 'a=nat] by simp
  ultimately have "length (filter (needs_init c fl) L) < 2 ^ LENGTH(16)" by simp
  hence cnt: "unat (snd r) = length (filter (needs_init c fl) L)"
    by (simp add: r_def sweep_list_count[OF nm] c unat_of_nat)
  have zero: "mem (fst r) (get_memory_addr_from_physical_sector p + k) = 0"
    if "p \<in> set L" "stale_header c fl p" "k < 12" for p and k :: u32
  proof -
    have "\<exists>q\<in>set L. stale_header c fl q
             \<and> get_memory_addr_from_physical_sector p + k
                 - get_memory_addr_from_physical_sector q < 12"
      using that by (intro bexI[of _ p]) simp_all
    thus ?thesis by (simp only: m if_True)
  qed
  have stale: "\<not> check_sector_signature (fst r) p" if "p \<in> set L" "stale_header c fl p" for p
    by (rule signature_zero_not_valid) (rule zero[OF that])
  have keep: "mem (fst r) (get_memory_addr_from_physical_sector p + k)
                = mem fl (get_memory_addr_from_physical_sector p + k)"
    if "p \<in> set L" "\<not> needs_init c fl p" "k < FLASH_SECTOR_SIZE" for p k
  proof -
    have k: "k < 4096" using that(3) by (simp add: FLASH_SECTOR_SIZE_def)
    have "\<not> (\<exists>q\<in>set L. stale_header c fl q
             \<and> get_memory_addr_from_physical_sector p + k
                 - get_memory_addr_from_physical_sector q < 12)"
    proof
      assume "\<exists>q\<in>set L. stale_header c fl q
             \<and> get_memory_addr_from_physical_sector p + k
                 - get_memory_addr_from_physical_sector q < 12"
      then obtain q where q: "stale_header c fl q"
        "get_memory_addr_from_physical_sector p + k - get_memory_addr_from_physical_sector q < 12"
        by blast
      from q(2) sector_span_addr[OF k, of 12 p q]
      have "get_memory_addr_from_physical_sector p = get_memory_addr_from_physical_sector q"
        by simp
      from same_addr_same_header(2)[OF this, of c fl] q(1) have "stale_header c fl p" by simp
      thus False using that(2) by (simp add: stale_header_def needs_init_def)
    qed
    thus ?thesis by (simp only: m if_False)
  qed
  have frame: "\<exists>p\<in>set L. stale_header c fl p
               \<and> a - get_memory_addr_from_physical_sector p < of_nat sizeof_SectorHeader"
    if "mem (fst r) a \<noteq> mem fl a" for a
    using that by (simp add: m sizeof_SectorHeader_def split: if_splits)
  show ?thesis
  proof (intro exI[of _ "fst r"] exI[of _ "snd r"] conjI ballI allI impI)
    show "validation_sweep (configure lower c grp) fl 0 lower = Some (fst r, snd r)"
      using run by (simp add: G_def)
    show "unat (snd r) = length (filter (needs_init c fl) (group_leaders lower c grp))"
      using cnt by (simp add: L_def)
  next
    fix p and k :: u32
    assume "p \<in> set (group_leaders lower c grp)" "stale_header c fl p"
      "k < of_nat sizeof_SectorHeader"
    thus "mem (fst r) (get_memory_addr_from_physical_sector p + k) = 0"
      using zero[of p k] by (simp add: L_def sizeof_SectorHeader_def)
  next
    fix p assume "p \<in> set (group_leaders lower c grp)" "stale_header c fl p"
    thus "\<not> check_sector_signature (fst r) p" using stale by (simp add: L_def)
  next
    fix p k assume "p \<in> set (group_leaders lower c grp)" "\<not> needs_init c fl p"
      "k < FLASH_SECTOR_SIZE"
    thus "mem (fst r) (get_memory_addr_from_physical_sector p + k)
            = mem fl (get_memory_addr_from_physical_sector p + k)"
      using keep by (simp add: L_def)
  next
    fix a assume "mem (fst r) a \<noteq> mem fl a"
    from frame[OF this]
    show "\<exists>p\<in>set (group_leaders lower c grp). stale_header c fl p
               \<and> a - get_memory_addr_from_physical_sector p < of_nat sizeof_SectorHeader"
      by (simp add: L_def)
  qed
qed

theorem validation_sweep_invalidates_stale_leaders_witness:
  "100 \<in> set (group_leaders 100 5 1) \<and> stale_header 5 stale_flash 100
   \<and> 101 \<in> set (group_leaders 100 5 1) \<and> needs_init 5 stale_flash 101
   \<and> (\<exists>fl' n. validation_sweep (configure 100 5 1) stale_flash 0 100 = Some (fl', n)
         \<and> mem fl' (get_memory_addr_from_physical_sector 100) = 0
         \<and> mem fl' (get_memory_addr_from_physical_sector 100 + 11) = 0
         \<and> \<not> check_sector_signature fl' 100
         \<and> unat n = length (filter (needs_init 5 stale_flash) (group_leaders 100 5 1)))"
proof -
  have l: "group_leaders 100 5 1 = [100, 101, 102, 103, 104]"
    by (simp add: group_leaders_def stride_from_def upt_rec)
  have s: "stale_header 5 stale_flash 100" by code_simp
  have n: "needs_init 5 stale_flash 101" by code_simp
  have m: "100 \<in> set (group_leaders 100 5 1)" "101 \<in> set (group_leaders 100 5 1)"
    by (simp_all add: l)
  from validation_sweep_invalidates_stale_leaders[of 100 5 1 stale_flash]
  obtain fl' n where
    r: "validation_sweep (configure 100 5 1) stale_flash 0 100 = Some (fl', n)"
       "unat n = length (filter (needs_init 5 stale_flash) (group_leaders 100 5 1))"
       "\<forall>p\<in>set (group_leaders 100 5 1).
           (stale_header 5 stale_flash p \<longrightarrow>
              (\<forall>k<of_nat sizeof_SectorHeader.
                  mem fl' (get_memory_addr_from_physical_sector p + k) = 0)
              \<and> \<not> check_sector_signature fl' p)
         \<and> (\<not> needs_init 5 stale_flash p \<longrightarrow>
              (\<forall>k<FLASH_SECTOR_SIZE. mem fl' (get_memory_addr_from_physical_sector p + k)
                   = mem stale_flash (get_memory_addr_from_physical_sector p + k)))"
    by blast
  from r(3) m(1) s have z: "\<forall>k<of_nat sizeof_SectorHeader.
      mem fl' (get_memory_addr_from_physical_sector 100 + k) = 0"
    and v: "\<not> check_sector_signature fl' 100" by blast+
  have "(0::u32) < of_nat sizeof_SectorHeader" "(11::u32) < of_nat sizeof_SectorHeader"
    by (simp_all add: sizeof_SectorHeader_def)
  with z have "mem fl' (get_memory_addr_from_physical_sector 100 + 0) = 0"
    "mem fl' (get_memory_addr_from_physical_sector 100 + 11) = 0" by blast+
  hence "mem fl' (get_memory_addr_from_physical_sector 100) = 0"
    "mem fl' (get_memory_addr_from_physical_sector 100 + 11) = 0" by simp_all
  thus ?thesis using v r(1,2) m s n by blast
qed

text \<open>
  Claim C8 as stated fails in its scenario. When the random source yields 0, 1, 2, ...
  the cold boot with 10 logical sectors puts logical id \<open>k\<close> into sector \<open>100 + k\<close>.
  Re-initialising with 5 logical sectors sweeps sectors 100..104 only: it invalidates
  nothing and counts nothing, though sectors 105..109 carry the logical ids 5..9.
\<close>

theorem shrink_sweep_invalidates_nothing:
  "init_flash_lib 100 10 1 ascending erased_flash = Some (Inr (cold_boot_prefix 10, 10))
   \<and> check_sector_signature (cold_boot_prefix 10) 105
   \<and> get_header_attribute_from_sector (cold_boot_prefix 10) 105 LOGICAL_ID_POSITION = 5
   \<and> check_sector_signature (cold_boot_prefix 10) 109
   \<and> get_header_attribute_from_sector (cold_boot_prefix 10) 109 LOGICAL_ID_POSITION = 9
   \<and> validation_sweep (configure 100 5 1) (cold_boot_prefix 10) 0 100
        = Some (cold_boot_prefix 10, 0)"
  using cold_boot_fields[of 10 105] cold_boot_fields[of 10 109]
  by (simp add: cold_boot_ascending shrink_sweep)

section \<open>Running the initialisation twice (claim C5)\<close>

text \<open>
  Claim C5 (a second initialisation with the same configuration allocates and writes
  nothing) at two failing inputs; \<open>rand()\<close> yields 1 in both.

  With one logical sector of two physical sectors at \<open>lower_bound = 100\<close> the first run
  on erased flash allocates sector \<open>1 mod 2 + 100 = 101\<close> for logical id 0. The sweep and
  the representative lookup visit group leaders only, here sector 100, so the lookup of
  logical id 0 finds nothing, and the second run counts sector 100 as uninitialised and
  allocates again: it erases and programs sector 100.

  With two logical sectors of one physical sector at \<open>lower_bound = 65534\<close>, so that
  \<open>upper_bound = 65536\<close>, the first run allocates sector 65535 for logical id 0; for
  logical id 1 the 16-bit counter of the allocator steps from 65535 to 0, which is below
  \<open>upper_bound\<close>, and sector 0 is allocated. The second run finds sector 65534 not valid
  and no header of logical id 1 in the address space, and allocates again, now sector 1.
\<close>

theorem second_initialisation_allocates_again:
  "init_flash_lib 100 1 2 (\<lambda>_. 1) erased_flash = Some (Inr (misplaced_flash, 1))
   \<and> get_first_sector_from_logical_id (configure 100 1 2) misplaced_flash 0 = Some None
   \<and> init_flash_lib 100 1 2 (\<lambda>_. 1) misplaced_flash
        = Some (Inr (write_sector_by_physical_addr misplaced_flash 100 (fresh_buffer 0), 1))
   \<and> oplog (write_sector_by_physical_addr misplaced_flash 100 (fresh_buffer 0))
        = oplog misplaced_flash @ [Erase (100 * 4096) 4096, Program (100 * 4096) 256]
   \<and> init_flash_lib 65534 2 1 (\<lambda>_. 1) erased_flash = Some (Inr (wrapped_flash, 2))
   \<and> check_sector_signature wrapped_flash 0
   \<and> get_first_sector_from_logical_id (configure 65534 2 1) wrapped_flash 1 = Some None
   \<and> init_flash_lib 65534 2 1 (\<lambda>_. 1) wrapped_flash
        = Some (Inr (write_sector_by_physical_addr wrapped_flash 1 (fresh_buffer 1), 1))
   \<and> oplog (write_sector_by_physical_addr wrapped_flash 1 (fresh_buffer 1))
        = oplog wrapped_flash @ [Erase (1 * 4096) 4096, Program (1 * 4096) 256]"
proof -
  have a: "get_first_sector_from_logical_id (configure 100 1 2) misplaced_flash 0 = Some None"
    by code_simp
  have b: "oplog (write_sector_by_physical_addr fl s buf)
             = oplog fl @ [Erase (s * 4096) 4096, Program (s * 4096) 256]" for fl s buf
    by (simp add: oplog_write_sector hw_consts get_memory_addr_from_physical_sector_def)
  have c: "check_sector_signature wrapped_flash 0"
    by (simp add: wrapped_flash_def write_fresh_simps)
  have d: "get_first_sector_from_logical_id (configure 65534 2 1) wrapped_flash 1 = Some None"
    by (simp add: run_simps leaders_wrapped upper_wrapped wrapped_flash_def)
  show ?thesis
    by (simp only: misplaced_first_run misplaced_second_run wrapped_first_run
          wrapped_second_run a b c d simp_thms)
qed

section \<open>Cold boot (claim C6)\<close>

text \<open>
  Claim C6. When no sector of \<open>[100, 110)\<close> carries a valid signature, \<open>init_flash_lib\<close>
  with \<open>lower_bound = 100\<close>, 10 logical sectors and \<open>group_by = 1\<close> returns, for every
  sequence of values of \<open>rand()\<close>, after exactly 10 allocations: the allocated sectors
  are 10 distinct sectors, together the sectors of \<open>[100, 110)\<close>; the driver calls are
  one erase and one program per allocated sector; afterwards each of them carries a
  valid signature, write count 1 and a logical id below 10, and no two of them carry the
  same logical id.
\<close>

theorem cold_boot_allocates_ten_sectors:
  assumes "\<forall>s. 100 \<le> s \<and> s < 110 \<longrightarrow> \<not> check_sector_signature fl s"
  shows "\<exists>fl' ss. init_flash_lib 100 10 1 rands fl = Some (Inr (fl', 10))
           \<and> length ss = 10 \<and> distinct ss \<and> set ss = {s. 100 \<le> s \<and> s < 110}
           \<and> oplog fl' = oplog fl @ allocation_ops ss
           \<and> (\<forall>s\<in>set ss. check_sector_signature fl' s
                 \<and> get_header_attribute_from_sector fl' s WRITE_COUNT_POSITION = 1
                 \<and> get_header_attribute_from_sector fl' s LOGICAL_ID_POSITION < 10)
           \<and> distinct (map (\<lambda>s. get_header_attribute_from_sector fl' s LOGICAL_ID_POSITION) ss)"
proof -
  have H: "unat (100::u32) + unat (10::u16) \<le> 65535" by simp
  have S: "space 100 10 = {s. 100 \<le> s \<and> s < 110}"
    using space_props(2)[OF H] by (simp add: upper_100_10)
  have nv: "\<forall>s\<in>space 100 10. \<not> check_sector_signature fl s" using assms by (simp add: S)
  hence ns: "\<forall>s\<in>space 100 10. \<not> stale_header 10 fl s" by (simp add: stale_header_def)
  have fr: "free_sectors 100 10 fl = space 100 10" using nv by (auto simp: free_sectors_def)
  from sweep_post[OF H, of fl] ns obtain cnt where
    sw: "validation_sweep (configure 100 10 1) fl 0 100 = Some (fl, cnt)"
        "unat cnt = card (free_sectors 100 10 fl)" by blast
  have c10: "unat cnt = 10" using sw(2) space_props(5)[OF H] by (simp add: fr)
  hence cz: "cnt \<noteq> 0" by auto
  have inv: "fill_invariant 100 10 fl cnt 0"
    unfolding fill_invariant_def using cz sw(2) nv by simp
  from fill_loop[OF H inv, of rands 0] obtain fl' ss where
    r: "initialization_loop (configure 100 10 1) rands fl cnt 0 0
          = Some (Inr (fl', 0 + length ss))"
       "fill_result 100 10 fl 0 fl' ss" by blast
  from r(2) have
    R1: "distinct ss" and R2: "set ss = free_sectors 100 10 fl"
    and R3: "oplog fl' = oplog fl @ allocation_ops ss"
    and R4: "\<forall>s\<in>space 100 10. check_sector_signature fl' s
               \<and> get_header_attribute_from_sector fl' s LOGICAL_ID_POSITION < ucast (10::u16)"
    and R6: "\<forall>s\<in>set ss. get_header_attribute_from_sector fl' s WRITE_COUNT_POSITION = 1
               \<and> 0 \<le> get_header_attribute_from_sector fl' s LOGICAL_ID_POSITION"
    and R7: "distinct (map (\<lambda>s. get_header_attribute_from_sector fl' s LOGICAL_ID_POSITION) ss)"
    unfolding fill_result_def by blast+
  have len: "length ss = 10"
    using distinct_card[OF R1] R2 fr space_props(5)[OF H] by simp
  have run: "init_flash_lib 100 10 1 rands fl = Some (Inr (fl', 10))"
    using sw(1) cz r(1) len by (simp add: init_flash_lib_def init_sectors_def)
  have set: "set ss = {s. 100 \<le> s \<and> s < 110}" using R2 fr S by simp
  have all: "\<forall>s\<in>set ss. check_sector_signature fl' s
                 \<and> get_header_attribute_from_sector fl' s WRITE_COUNT_POSITION = 1
                 \<and> get_header_attribute_from_sector fl' s LOGICAL_ID_POSITION < 10"
    using R4 R6 R2 fr by simp
  show ?thesis using run len R1 set R3 all R7 by blast
qed

theorem cold_boot_allocates_ten_sectors_witness:
  "\<not> check_sector_signature erased_flash 100 \<and> \<not> check_sector_signature erased_flash 109
   \<and> (\<exists>fl' ss. init_flash_lib 100 10 1 ascending erased_flash = Some (Inr (fl', 10))
           \<and> length ss = 10 \<and> distinct ss \<and> set ss = {s. 100 \<le> s \<and> s < 110}
           \<and> oplog fl' = oplog erased_flash @ allocation_ops ss
           \<and> (\<forall>s\<in>set ss. check_sector_signature fl' s
                 \<and> get_header_attribute_from_sector fl' s WRITE_COUNT_POSITION = 1
                 \<and> get_header_attribute_from_sector fl' s LOGICAL_ID_POSITION < 10)
           \<and> distinct (map (\<lambda>s. get_header_attribute_from_sector fl' s LOGICAL_ID_POSITION) ss))"
proof -
  have h: "\<forall>s. 100 \<le> s \<and> s < 110 \<longrightarrow> \<not> check_sector_signature erased_flash s"
    by (simp add: erased_header)
  from cold_boot_allocates_ten_sectors[OF h, of ascending] erased_header(2)
  show ?thesis by blast
qed

end
